theory Spec2Isabelle
  imports Complex_Main "HOL-Library.Word"
begin

unbundle bit_operations_syntax

section \<open>Common conventions\<close>

text \<open>
  The C++ sources under \<^verbatim>\<open>Core/src\<close> are embedded function by function. Each member
  function takes the object's state as a record and returns the updated record; output
  buffers passed by pointer are lists that are passed in (with the caller's previous
  contents) and returned.

  \<^item> \<^verbatim>\<open>uint8_t\<close>, \<^verbatim>\<open>uint32_t\<close> and the \<^verbatim>\<open>int\<close> counters are words of that width
    (\<open>+\<close> wraps); \<^verbatim>\<open>int16_t\<close> samples are \<open>16 word\<close> read with \<open>sint\<close>.
  \<^item> \<^verbatim>\<open>int64_t\<close> sequence numbers are \<open>int\<close>: signed overflow is undefined in C++, so
    the model covers the executions in which no \<^verbatim>\<open>int64_t\<close> operation overflows.
  \<^item> \<^verbatim>\<open>size_t\<close> sizes and indices are \<open>nat\<close>.
  \<^item> A \<^verbatim>\<open>float\<close> is the real number it denotes. Every single-precision operation of the
    code is the exact operation followed by \<open>float_round\<close>, the rounding of IEEE 754
    binary32 (section ``Single-precision arithmetic''); NaN, infinities and subnormal
    results are outside the model.
  \<^item> \<^verbatim>\<open>std::chrono::steady_clock::now()\<close> is an argument \<open>now\<close>, in clock ticks of one
    nanosecond.
\<close>

type_synonym sample = real

text \<open>C++ integer division truncates towards zero.\<close>

definition tdiv :: "int \<Rightarrow> int \<Rightarrow> int" where
  "tdiv a b = (if (a < 0) = (b < 0) then \<bar>a\<bar> div \<bar>b\<bar> else - (\<bar>a\<bar> div \<bar>b\<bar>))"

text \<open>Conversion of an \<^verbatim>\<open>int\<close> value to \<^verbatim>\<open>size_t\<close> (64 bit).\<close>

definition size_t_of_int :: "int \<Rightarrow> nat" where
  "size_t_of_int x = nat (x mod 2 ^ 64)"

text \<open>\<^verbatim>\<open>std::fill(p + lo, p + hi, v)\<close> as the loop of element writes it is.\<close>

definition fill :: "'a list \<Rightarrow> nat \<Rightarrow> nat \<Rightarrow> 'a \<Rightarrow> 'a list" where
  "fill p lo hi v = fold (\<lambda>i q. q[i := v]) [lo..<hi] p"

section \<open>Single-precision arithmetic\<close>

text \<open>
  \<^verbatim>\<open>float\<close> is IEEE 754 binary32 with the default rounding mode, and every \<^verbatim>\<open>float\<close>
  expression is evaluated in that format (as on the ARM64 targets of this code). The
  result of an operation is the exact result rounded to the nearest value with a 24-bit
  significand, a tie going to the even significand. \<open>round_half_even\<close> rounds a real to
  an integer that way; \<open>float_round x\<close> scales \<open>x\<close> by the unit in the last place of its
  binade, \<open>2 ^ (e - 23)\<close> with \<open>2 ^ e \<le> \<bar>x\<bar> < 2 ^ (e + 1)\<close>, rounds, and scales back. It is
  the rounding of binary32 for results whose magnitude lies in the normal range
  (\<open>2 ^ -126 \<le> \<bar>x\<bar> < 2 ^ 128\<close>) and for 0.
\<close>

definition round_half_even :: "real \<Rightarrow> int" where
  "round_half_even t =
     (let f = \<lfloor>t\<rfloor>; r = t - of_int f in
      if r < 1 / 2 then f
      else if 1 / 2 < r then f + 1
      else if even f then f else f + 1)"

definition float_round :: "real \<Rightarrow> real" where
  "float_round x =
     (if x = 0 then 0
      else let e = \<lfloor>log 2 \<bar>x\<bar>\<rfloor>;
               u = 2 powr (of_int e - 23)
           in sgn x * (u * of_int (round_half_even (\<bar>x\<bar> / u))))"

text \<open>The operators \<^verbatim>\<open>+\<close>, \<^verbatim>\<open>*\<close> and \<^verbatim>\<open>/\<close> on \<^verbatim>\<open>float\<close> operands.\<close>

definition fadd :: "real \<Rightarrow> real \<Rightarrow> real" where
  "fadd x y = float_round (x + y)"

definition fmul :: "real \<Rightarrow> real \<Rightarrow> real" where
  "fmul x y = float_round (x * y)"

definition fdiv :: "real \<Rightarrow> real \<Rightarrow> real" where
  "fdiv x y = float_round (x / y)"

text \<open>
  \<^verbatim>\<open>static_cast<float>(M_PI)\<close>, with \<^verbatim>\<open>M_PI\<close> defined as 3.14159265358979323846 in
  \<^verbatim>\<open>user_audio_buffer.cpp\<close>: the binary32 value nearest to it, \<open>13176795 * 2 ^ -22\<close>
  (bit pattern 0x40490FDB).
\<close>

definition pi_f :: real where
  "pi_f = 13176795 / 4194304"

section \<open>Crossfade\<close>

record Crossfade =
  fadeLength :: nat
  fadeIn :: "sample list"
  fadeOut :: "sample list"

text \<open>
  \<^verbatim>\<open>CrossfadeImpl::CrossfadeImpl(int frameSize)\<close>; a negative \<^verbatim>\<open>frameSize\<close> makes
  \<^verbatim>\<open>resize\<close> throw, so the length is a \<open>nat\<close>. \<^verbatim>\<open>std::sin\<close> on a \<^verbatim>\<open>float\<close> is the
  single-precision sine of the platform's C library, which is not part of these sources:
  it is the parameter \<open>sinf\<close>. The conversions \<^verbatim>\<open>static_cast<float>(i)\<close> and that of
  \<^verbatim>\<open>fadeLength_\<close> in \<^verbatim>\<open>2.0f * fadeLength_\<close> round like every other operation. For
  \<^verbatim>\<open>frameSize = 0\<close> the tables are empty and \<^verbatim>\<open>mul\<close> (infinite in the code) is not used.
\<close>

definition Crossfade_create :: "(real \<Rightarrow> real) \<Rightarrow> nat \<Rightarrow> Crossfade" where
  "Crossfade_create sinf frameSize =
     (let mul = fdiv pi_f (fmul 2 (float_round (real frameSize))) in
      \<lparr> fadeLength = frameSize,
        fadeIn = map (\<lambda>i. sinf (fmul (float_round (real i)) mul)) [0..<frameSize],
        fadeOut = map (\<lambda>i. sinf (fmul (float_round (real (frameSize - i - 1))) mul))
                    [0..<frameSize] \<rparr>)"

definition applyFadeIn :: "Crossfade \<Rightarrow> sample list \<Rightarrow> nat \<Rightarrow> sample list" where
  "applyFadeIn cf samples frames =
     (let applyFrames = min frames (fadeLength cf) in
      fold (\<lambda>i s. s[i := fmul (s ! i) (fadeIn cf ! i)]) [0..<applyFrames] samples)"

definition applyFadeOut :: "Crossfade \<Rightarrow> sample list \<Rightarrow> nat \<Rightarrow> sample list" where
  "applyFadeOut cf samples frames =
     (let applyFrames = min frames (fadeLength cf);
          startIdx = frames - applyFrames in
      fold (\<lambda>i s. s[startIdx + i :=
                       fmul (s ! (startIdx + i)) (fadeOut cf ! (fadeLength cf - applyFrames + i))])
        [0..<applyFrames] samples)"

section \<open>UserAudioBuffer\<close>

record UabConfig =
  sampleRate :: int
  frameSize :: int
  minBufferMs :: int
  maxBufferMs :: int
  targetBufferMs :: int

definition UabConfig_default :: UabConfig where
  "UabConfig_default =
     \<lparr> sampleRate = 48000, frameSize = 480, minBufferMs = 60, maxBufferMs = 200,
       targetBufferMs = 80 \<rparr>"

record Stats =
  packetsReceived :: "32 word"
  packetsDecoded :: "32 word"
  sequenceGaps :: "32 word"
  plcFrames :: "32 word"
  bufferUnderruns :: "32 word"
  bufferOverruns :: "32 word"
  fadeIns :: "32 word"
  fadeOuts :: "32 word"
  lastSequence :: int
  currentBufferSize :: nat
  maxGapMs :: int

definition Stats_init :: Stats where
  "Stats_init =
     \<lparr> packetsReceived = 0, packetsDecoded = 0, sequenceGaps = 0, plcFrames = 0,
       bufferUnderruns = 0, bufferOverruns = 0, fadeIns = 0, fadeOuts = 0,
       lastSequence = -1, currentBufferSize = 0, maxGapMs = 0 \<rparr>"

text \<open>The deque \<^verbatim>\<open>buffer_\<close> is a list whose head is the front.\<close>

record UserAudioBuffer =
  userId :: "32 word"
  config :: UabConfig
  crossfade :: Crossfade
  buffer :: "sample list"
  minBufferSize :: nat
  maxBufferSize :: nat
  uab_lastSequence :: int
  sequenceIncrement :: int
  playbackStarted :: bool
  needsFadeIn :: bool
  needsFadeOut :: bool
  lastPacketTime :: int
  stats :: Stats

text \<open>
  \<^verbatim>\<open>UserAudioBufferImpl::UserAudioBufferImpl\<close>. The products are \<^verbatim>\<open>int\<close> products
  (assumed not to overflow) converted to \<^verbatim>\<open>size_t\<close>. \<open>sinf\<close> is the C library's sine, used
  by the constructor of the crossfade.
\<close>

definition UserAudioBuffer_create ::
  "(real \<Rightarrow> real) \<Rightarrow> 32 word \<Rightarrow> UabConfig \<Rightarrow> int \<Rightarrow> UserAudioBuffer" where
  "UserAudioBuffer_create sinf uid cfg now =
     \<lparr> userId = uid,
       config = cfg,
       crossfade = Crossfade_create sinf (nat (frameSize cfg)),
       buffer = [],
       minBufferSize = size_t_of_int (tdiv (minBufferMs cfg * sampleRate cfg) 1000),
       maxBufferSize = size_t_of_int (tdiv (maxBufferMs cfg * sampleRate cfg) 1000),
       uab_lastSequence = -1,
       sequenceIncrement = 1,
       playbackStarted = False,
       needsFadeIn = True,
       needsFadeOut = False,
       lastPacketTime = now,
       stats = Stats_init \<rparr>"

definition detectSequenceGap :: "UserAudioBuffer \<Rightarrow> int \<Rightarrow> UserAudioBuffer" where
  "detectSequenceGap st sequence =
     (if uab_lastSequence st < 0 then st
      else
        let expectedSequence = uab_lastSequence st + sequenceIncrement st in
        if sequence \<noteq> expectedSequence then
          let gap = sequence - uab_lastSequence st;
              st1 = (if gap > sequenceIncrement st
                     then st\<lparr>stats := (stats st)\<lparr>sequenceGaps := sequenceGaps (stats st) + 1\<rparr>\<rparr>
                     else st)
          in (if gap > 0 \<and> gap < 100 then st1\<lparr>sequenceIncrement := gap\<rparr> else st1)
        else st)"

text \<open>
  \<^verbatim>\<open>convertToFloat\<close>: every sample is converted to \<^verbatim>\<open>float\<close>, divided by \<^verbatim>\<open>32768.0f\<close> and
  pushed at the back.
\<close>

definition convertToFloat :: "UserAudioBuffer \<Rightarrow> 16 word list \<Rightarrow> UserAudioBuffer" where
  "convertToFloat st input =
     fold (\<lambda>s t. t\<lparr>buffer := buffer t @ [fdiv (float_round (real_of_int (sint s))) 32768]\<rparr>)
       input st"

text \<open>
  The overflow loop of \<^verbatim>\<open>addSamples\<close>:
  \<^verbatim>\<open>while (buffer_.size() > maxBufferSize_) { buffer_.pop_front(); stats_.bufferOverruns++; }\<close>
\<close>

fun evict :: "nat \<Rightarrow> sample list \<Rightarrow> 32 word \<Rightarrow> sample list \<times> 32 word" where
  "evict mx [] ov = ([], ov)"
| "evict mx (x # xs) ov =
     (if length (x # xs) > mx then evict mx xs (ov + 1) else (x # xs, ov))"

text \<open>
  \<^verbatim>\<open>addSamples(samples, frames, sequence, isPLC)\<close>: the pair \<^verbatim>\<open>(samples, frames)\<close> is
  the list \<open>samples\<close>, of length \<^verbatim>\<open>frames\<close>.
\<close>

definition addSamples ::
  "UserAudioBuffer \<Rightarrow> int \<Rightarrow> 16 word list \<Rightarrow> int \<Rightarrow> bool \<Rightarrow> UserAudioBuffer" where
  "addSamples st now samples sequence isPLC =
     (let st1 = (if uab_lastSequence st \<ge> 0 then
                   let gapMs = tdiv (now - lastPacketTime st) 1000000 in
                   if gapMs > maxGapMs (stats st)
                   then st\<lparr>stats := (stats st)\<lparr>maxGapMs := sint (word_of_int gapMs :: 32 word)\<rparr>\<rparr>
                   else st
                 else st);
          st2 = st1\<lparr>lastPacketTime := now\<rparr>;
          st3 = detectSequenceGap st2 sequence;
          st4 = st3\<lparr>stats := (stats st3)\<lparr>packetsReceived := packetsReceived (stats st3) + 1\<rparr>\<rparr>;
          st5 = (if isPLC
                 then st4\<lparr>stats := (stats st4)\<lparr>plcFrames := plcFrames (stats st4) + 1\<rparr>\<rparr>
                 else st4\<lparr>stats := (stats st4)\<lparr>packetsDecoded := packetsDecoded (stats st4) + 1\<rparr>\<rparr>);
          st6 = st5\<lparr>stats := (stats st5)\<lparr>lastSequence := sequence\<rparr>, uab_lastSequence := sequence\<rparr>;
          st7 = convertToFloat st6 samples;
          (b, ov) = evict (maxBufferSize st7) (buffer st7) (bufferOverruns (stats st7));
          st8 = st7\<lparr>buffer := b, stats := (stats st7)\<lparr>bufferOverruns := ov\<rparr>\<rparr>
      in st8\<lparr>stats := (stats st8)\<lparr>currentBufferSize := length (buffer st8)\<rparr>\<rparr>)"

text \<open>
  The copy loop of \<^verbatim>\<open>readFloat\<close>:
  \<^verbatim>\<open>for (i = 0; i < readFrames; ++i) { output[i] = buffer_.front(); buffer_.pop_front(); }\<close>
  (\<^verbatim>\<open>readFrames\<close> never exceeds the buffer size, so the empty case is not reached).
\<close>

definition readFloat_copy :: "nat \<Rightarrow> sample list \<Rightarrow> sample list \<Rightarrow> sample list \<times> sample list" where
  "readFloat_copy readFrames output buf =
     fold (\<lambda>i (out, b). case b of [] \<Rightarrow> (out, b) | x # xs \<Rightarrow> (out[i := x], xs))
       [0..<readFrames] (output, buf)"

text \<open>
  \<^verbatim>\<open>readFloat(output, frames)\<close> returns the number of frames read, the output buffer and
  the new state. \<open>output\<close> is the caller's buffer as it was before the call.
\<close>

definition readFloat ::
  "UserAudioBuffer \<Rightarrow> sample list \<Rightarrow> nat \<Rightarrow> nat \<times> sample list \<times> UserAudioBuffer" where
  "readFloat st output frames =
     (if \<not> playbackStarted st \<and> \<not> length (buffer st) \<ge> minBufferSize st then
        (0, fill output 0 frames 0, st)
      else
        let st1 = (if \<not> playbackStarted st
                   then st\<lparr>playbackStarted := True, needsFadeIn := True\<rparr> else st) in
        if buffer st1 = [] then
          (0, fill output 0 frames 0,
           st1\<lparr>playbackStarted := False, needsFadeIn := True,
               stats := (stats st1)\<lparr>bufferUnderruns := bufferUnderruns (stats st1) + 1\<rparr>\<rparr>)
        else
          let readFrames = min frames (length (buffer st1));
              (out1, b) = readFloat_copy readFrames output (buffer st1);
              st2 = st1\<lparr>buffer := b\<rparr>;
              out2 = (if readFrames < frames then fill out1 readFrames frames 0 else out1);
              (out3, st3) =
                (if needsFadeIn st2
                 then (applyFadeIn (crossfade st2) out2 readFrames,
                       st2\<lparr>needsFadeIn := False,
                           stats := (stats st2)\<lparr>fadeIns := fadeIns (stats st2) + 1\<rparr>\<rparr>)
                 else (out2, st2));
              (out4, st4) =
                (if needsFadeOut st3 \<and> buffer st3 = []
                 then (applyFadeOut (crossfade st3) out3 readFrames,
                       st3\<lparr>needsFadeOut := False,
                           stats := (stats st3)\<lparr>fadeOuts := fadeOuts (stats st3) + 1\<rparr>\<rparr>)
                 else (out3, st3))
          in (readFrames, out4,
              st4\<lparr>stats := (stats st4)\<lparr>currentBufferSize := length (buffer st4)\<rparr>\<rparr>))"

definition notifyTalkingEnded :: "UserAudioBuffer \<Rightarrow> UserAudioBuffer" where
  "notifyTalkingEnded st = st\<lparr>needsFadeOut := True\<rparr>"

text \<open>
  A scenario driver for the examples: one \<^verbatim>\<open>addSamples\<close> call per sequence number, each
  with one frame of 480 zero samples, not PLC, all at clock reading 0.
\<close>

definition feed_sequences :: "UserAudioBuffer \<Rightarrow> int list \<Rightarrow> UserAudioBuffer" where
  "feed_sequences st seqs = fold (\<lambda>sq s. addSamples s 0 (replicate 480 0) sq False) seqs st"

text \<open>
  A sequence of \<^verbatim>\<open>addSamples\<close> calls, one per element \<open>(now, samples, sequence, isPLC)\<close>
  of the list, and all the samples they pass, in order.
\<close>

definition addSamples_calls ::
  "UserAudioBuffer \<Rightarrow> (int \<times> 16 word list \<times> int \<times> bool) list \<Rightarrow> UserAudioBuffer" where
  "addSamples_calls st calls =
     fold (\<lambda>(now, samples, sequence, isPLC) s. addSamples s now samples sequence isPLC) calls st"

definition samples_of :: "(int \<times> 16 word list \<times> int \<times> bool) list \<Rightarrow> 16 word list" where
  "samples_of calls = concat (map (\<lambda>(now, samples, sequence, isPLC). samples) calls)"

text \<open>
  A stand-in for the C library's sine in closed examples only (the correctly rounded
  sine): every theorem below is proved for an arbitrary \<open>sinf\<close>.
\<close>

definition example_sinf :: "real \<Rightarrow> real" where
  "example_sinf x = float_round (sin x)"

text \<open>Six calls with 480 samples of value 16384 (0.5 as \<^verbatim>\<open>float\<close>) each, sequences 0 to 5.\<close>

definition example_calls :: "(int \<times> 16 word list \<times> int \<times> bool) list" where
  "example_calls = map (\<lambda>k. (0, replicate 480 16384, int k, False)) [0..<6]"

section \<open>FloatMixer\<close>

record FloatMixer =
  fm_frameSize :: nat
  mixBuffer :: "sample list"

definition FloatMixer_create :: "nat \<Rightarrow> FloatMixer" where
  "FloatMixer_create fs = \<lparr> fm_frameSize = fs, mixBuffer = replicate fs 0 \<rparr>"

definition clear :: "FloatMixer \<Rightarrow> FloatMixer" where
  "clear m = m\<lparr>mixBuffer := fill (mixBuffer m) 0 (length (mixBuffer m)) 0\<rparr>"

definition add :: "FloatMixer \<Rightarrow> sample list \<Rightarrow> nat \<Rightarrow> FloatMixer" where
  "add m samples frames =
     (let addFrames = min frames (fm_frameSize m) in
      m\<lparr>mixBuffer := fold (\<lambda>i b. b[i := fadd (b ! i) (samples ! i)]) [0..<addFrames]
                       (mixBuffer m)\<rparr>)"

text \<open>
  \<^verbatim>\<open>static_cast<int16_t>(x)\<close> of a float: the fractional part is discarded (truncation
  towards zero). The conversion is undefined when the truncated value does not fit
  \<^verbatim>\<open>int16_t\<close>; \<^verbatim>\<open>getMixed\<close> only converts values between -32767 and 32767. The product
  \<^verbatim>\<open>sample * 32767.0f\<close> is a single-precision product.
\<close>

definition float_to_int16 :: "real \<Rightarrow> 16 word" where
  "float_to_int16 x = word_of_int (if 0 \<le> x then \<lfloor>x\<rfloor> else \<lceil>x\<rceil>)"

definition getMixed :: "FloatMixer \<Rightarrow> 16 word list \<Rightarrow> nat \<Rightarrow> 16 word list" where
  "getMixed m output frames =
     (let outFrames = min frames (fm_frameSize m) in
      fold (\<lambda>i out.
              let sample = mixBuffer m ! i;
                  sample1 = (if sample > 1 then 1 else sample);
                  sample2 = (if sample1 < -1 then -1 else sample1)
              in out[i := float_to_int16 (fmul sample2 32767)])
        [0..<outFrames] output)"

section \<open>JitterBuffer\<close>

record JbConfig =
  jb_sampleRate :: int
  jb_frameSize :: int
  jb_minDelayMs :: int
  jb_maxDelayMs :: int
  jb_targetDelayMs :: int

definition JbConfig_default :: JbConfig where
  "JbConfig_default =
     \<lparr> jb_sampleRate = 48000, jb_frameSize = 480, jb_minDelayMs = 20, jb_maxDelayMs = 200,
       jb_targetDelayMs = 60 \<rparr>"

record Packet =
  pk_data :: "16 word list"
  pk_sequence :: "32 word"
  pk_timestamp :: "32 word"
  pk_arrivalTime :: int

text \<open>
  \<^verbatim>\<open>std::map<uint32_t, Packet> packets_\<close> is an association list kept in ascending key
  order: \<^verbatim>\<open>begin()\<close> is the head, \<^verbatim>\<open>rbegin()\<close> the last element, \<^verbatim>\<open>size()\<close> the length.
  The \<^verbatim>\<open>int\<close> counters are 32-bit words.
\<close>

type_synonym packet_map = "(32 word \<times> Packet) list"

text \<open>\<^verbatim>\<open>packets_[k] = v\<close>: insert, or overwrite the entry with that key.\<close>

fun map_assign :: "32 word \<Rightarrow> Packet \<Rightarrow> packet_map \<Rightarrow> packet_map" where
  "map_assign k v [] = [(k, v)]"
| "map_assign k v ((k', v') # r) =
     (if k < k' then (k, v) # (k', v') # r
      else if k = k' then (k, v) # r
      else (k', v') # map_assign k v r)"

text \<open>\<^verbatim>\<open>packets_.find(k)\<close>, and \<^verbatim>\<open>packets_.erase(it)\<close> for the entry with key \<open>k\<close>.\<close>

fun map_find :: "32 word \<Rightarrow> packet_map \<Rightarrow> Packet option" where
  "map_find k [] = None"
| "map_find k ((k', v') # r) = (if k = k' then Some v' else map_find k r)"

fun map_erase :: "32 word \<Rightarrow> packet_map \<Rightarrow> packet_map" where
  "map_erase k [] = []"
| "map_erase k ((k', v') # r) = (if k = k' then r else (k', v') # map_erase k r)"

record JitterBuffer =
  jb_config :: JbConfig
  packets :: packet_map
  nextPlaySequence :: "32 word"
  jb_initialized :: bool
  currentDelayMs :: int
  lastGetTime :: int
  jb_packetsReceived :: "32 word"
  jb_packetsLost :: "32 word"
  jb_packetsLate :: "32 word"
  jb_packetsReordered :: "32 word"

definition kMaxPackets :: nat where
  "kMaxPackets = 100"

definition JitterBuffer_create :: "JbConfig \<Rightarrow> int \<Rightarrow> JitterBuffer" where
  "JitterBuffer_create cfg now =
     \<lparr> jb_config = cfg, packets = [], nextPlaySequence = 0, jb_initialized = False,
       currentDelayMs = jb_targetDelayMs cfg, lastGetTime = now,
       jb_packetsReceived = 0, jb_packetsLost = 0, jb_packetsLate = 0,
       jb_packetsReordered = 0 \<rparr>"

text \<open>
  The size limit of \<^verbatim>\<open>put\<close>:
  \<^verbatim>\<open>while (packets_.size() > kMaxPackets) packets_.erase(packets_.begin());\<close>
\<close>

fun limit_size :: "packet_map \<Rightarrow> packet_map" where
  "limit_size [] = []"
| "limit_size (p # ps) = (if length (p # ps) > kMaxPackets then limit_size ps else p # ps)"

text \<open>\<^verbatim>\<open>put(data, frames, sequence, timestamp)\<close>; \<^verbatim>\<open>(data, frames)\<close> is the list \<open>dat\<close>.\<close>

definition put ::
  "JitterBuffer \<Rightarrow> int \<Rightarrow> 16 word list \<Rightarrow> 32 word \<Rightarrow> 32 word \<Rightarrow> JitterBuffer" where
  "put st now dat sq ts =
     (let st1 = st\<lparr>jb_packetsReceived := jb_packetsReceived st + 1\<rparr>;
          st2 = (if \<not> jb_initialized st1
                 then st1\<lparr>nextPlaySequence := sq, jb_initialized := True\<rparr> else st1)
      in if sq < nextPlaySequence st2 then st2\<lparr>jb_packetsLate := jb_packetsLate st2 + 1\<rparr>
         else
           let st3 = (if packets st2 \<noteq> [] \<and> sq < fst (last (packets st2))
                      then st2\<lparr>jb_packetsReordered := jb_packetsReordered st2 + 1\<rparr>
                      else st2);
               packet = \<lparr> pk_data = dat, pk_sequence = sq, pk_timestamp = ts,
                          pk_arrivalTime = now \<rparr>;
               st4 = st3\<lparr>packets := map_assign sq packet (packets st3)\<rparr>
           in st4\<lparr>packets := limit_size (packets st4)\<rparr>)"

text \<open>\<^verbatim>\<open>std::memcpy(dst, src, n * sizeof(int16_t))\<close> as \<open>n\<close> element writes.\<close>

definition memcpy :: "'a list \<Rightarrow> 'a list \<Rightarrow> nat \<Rightarrow> 'a list" where
  "memcpy dst src n = fold (\<lambda>i d. d[i := src ! i]) [0..<n] dst"

text \<open>
  The copy of one packet into the output that both playing branches of \<^verbatim>\<open>get\<close> perform:
  \<^verbatim>\<open>copyFrames = min(frames, data.size())\<close>, \<^verbatim>\<open>memcpy\<close>, zero padding.
\<close>

definition copy_packet :: "Packet \<Rightarrow> 16 word list \<Rightarrow> nat \<Rightarrow> nat \<times> 16 word list" where
  "copy_packet packet output frames =
     (let copyFrames = min frames (length (pk_data packet));
          out1 = memcpy output (pk_data packet) copyFrames;
          out2 = (if copyFrames < frames then fill out1 copyFrames frames 0 else out1)
      in (copyFrames, out2))"

text \<open>
  \<^verbatim>\<open>get(output, frames)\<close> returns the frame count, the output buffer and the new state.
  The quotient \<^verbatim>\<open>minPacketsNeeded\<close> is an \<^verbatim>\<open>int\<close> division (undefined for
  \<^verbatim>\<open>frameSize = 0\<close>).
\<close>

definition get ::
  "JitterBuffer \<Rightarrow> int \<Rightarrow> 16 word list \<Rightarrow> nat \<Rightarrow> nat \<times> 16 word list \<times> JitterBuffer" where
  "get st now output frames =
     (let st1 = st\<lparr>lastGetTime := now\<rparr> in
      if \<not> jb_initialized st1 \<or> packets st1 = [] then (0, fill output 0 frames 0, st1)
      else
        let bufferedPackets = int (length (packets st1));
            minPacketsNeeded =
              tdiv (jb_minDelayMs (jb_config st1) * jb_sampleRate (jb_config st1))
                   (jb_frameSize (jb_config st1) * 1000)
        in if bufferedPackets < minPacketsNeeded then (0, fill output 0 frames 0, st1)
           else
             case map_find (nextPlaySequence st1) (packets st1) of
               Some packet \<Rightarrow>
                 let (copyFrames, out) = copy_packet packet output frames
                 in (copyFrames, out,
                     st1\<lparr>packets := map_erase (nextPlaySequence st1) (packets st1),
                         nextPlaySequence := nextPlaySequence st1 + 1\<rparr>)
             | None \<Rightarrow>
                 let st2 = st1\<lparr>jb_packetsLost := jb_packetsLost st1 + 1\<rparr> in
                 (case packets st2 of
                    (k, packet) # rest \<Rightarrow>
                      let st3 = (if nextPlaySequence st2 < k
                                 then st2\<lparr>jb_packetsLost :=
                                            jb_packetsLost st2 + ((k - nextPlaySequence st2) - 1),
                                          nextPlaySequence := k\<rparr>
                                 else st2);
                          (copyFrames, out) = copy_packet packet output frames
                      in (copyFrames, out,
                          st3\<lparr>packets := rest, nextPlaySequence := nextPlaySequence st3 + 1\<rparr>)
                  | [] \<Rightarrow> (0, fill output 0 frames 0, st2)))"

text \<open>
  Scenario drivers for the examples. \<open>jb_feed\<close> puts one packet per sequence number, at
  clock reading 0 with timestamp 0; the packet with sequence \<open>k\<close> carries 480 samples of
  value \<open>k + 1\<close>, so that the packet played by a \<^verbatim>\<open>get\<close> can be read off its output.
  \<open>jb_drain\<close> calls \<^verbatim>\<open>get\<close> \<open>n\<close> times with 480 frames, each time into a buffer that holds
  480 samples of value 9, and lists the return values and outputs.
\<close>

definition jb_feed :: "JitterBuffer \<Rightarrow> 32 word list \<Rightarrow> JitterBuffer" where
  "jb_feed st seqs = fold (\<lambda>sq s. put s 0 (replicate 480 (ucast sq + 1)) sq 0) seqs st"

fun jb_drain :: "JitterBuffer \<Rightarrow> nat \<Rightarrow> (nat \<times> 16 word list) list \<times> JitterBuffer" where
  "jb_drain st 0 = ([], st)"
| "jb_drain st (Suc n) =
     (case get st 0 (replicate 480 9) 480 of
        (r, out, st') \<Rightarrow> (case jb_drain st' n of (rs, st'') \<Rightarrow> ((r, out) # rs, st'')))"

section \<open>CryptState\<close>

text \<open>
  \<^verbatim>\<open>AES_set_encrypt_key\<close> and \<^verbatim>\<open>AES_encrypt\<close> belong to OpenSSL, not to this repository. The
  block cipher is therefore a parameter \<open>aes\<close> of every function that uses it: \<open>aes k b\<close> is
  the encryption of the 16-byte block \<open>b\<close> under the 16-byte key \<open>k\<close> (the key schedule
  \<^verbatim>\<open>aesKey_\<close> is determined by \<^verbatim>\<open>key_\<close>). \<^verbatim>\<open>AES_set_encrypt_key\<close> cannot fail for a 128-bit key,
  so \<^verbatim>\<open>init\<close> always succeeds. The mutex is not modelled: each call runs alone.
\<close>

type_synonym byte = "8 word"

type_synonym cipher = "byte list \<Rightarrow> byte list \<Rightarrow> byte list"

record CryptState =
  cs_key :: "byte list"
  clientNonce :: "byte list"
  serverNonce :: "byte list"
  cs_L :: "byte list"
  cs_delta :: "byte list"
  initialized :: bool
  needResync :: bool
  encryptNonce :: "32 word"
  decryptNonce :: "32 word"
  lastGood :: "32 word"
  cs_late :: "32 word"
  cs_lost :: "32 word"

text \<open>
  The constructor zeroes the key and the nonces; \<^verbatim>\<open>L_\<close> and \<^verbatim>\<open>delta_\<close> are indeterminate
  until \<^verbatim>\<open>init\<close> and are never read before it (they are zero here).
\<close>

definition CryptState_new :: CryptState where
  "CryptState_new =
     \<lparr> cs_key = replicate 16 0, clientNonce = replicate 16 0, serverNonce = replicate 16 0,
       cs_L = replicate 16 0, cs_delta = replicate 16 0, initialized = False,
       needResync = False, encryptNonce = 0, decryptNonce = 0, lastGood = 0, cs_late = 0,
       cs_lost = 0 \<rparr>"

definition xorBlock :: "byte list \<Rightarrow> byte list \<Rightarrow> byte list" where
  "xorBlock a b = map (\<lambda>i. a ! i XOR b ! i) [0..<16]"

text \<open>
  \<^verbatim>\<open>shift\<close> is called in place (\<^verbatim>\<open>dst == src\<close>); byte \<open>i\<close> is written before byte \<open>i + 1\<close> is
  read only as the old value, and the carry is taken first, so the result is that of the
  out-of-place function.
\<close>

definition shift :: "byte list \<Rightarrow> byte list" where
  "shift src =
     (let carry = drop_bit 7 (src ! 0) in
      map (\<lambda>i. push_bit 1 (src ! i) OR drop_bit 7 (src ! (i + 1))) [0..<15]
      @ [push_bit 1 (src ! 15) XOR (if carry \<noteq> 0 then 0x87 else 0)])"

definition generateSubkeys :: "cipher \<Rightarrow> CryptState \<Rightarrow> CryptState" where
  "generateSubkeys aes st =
     (let l = aes (cs_key st) (replicate 16 0) in st\<lparr>cs_L := l, cs_delta := l\<rparr>)"

definition init ::
  "cipher \<Rightarrow> CryptState \<Rightarrow> byte list \<Rightarrow> byte list \<Rightarrow> byte list \<Rightarrow> bool \<times> CryptState" where
  "init aes st k cn sn =
     (let st1 = st\<lparr>cs_key := take 16 k, clientNonce := take 16 cn, serverNonce := take 16 sn\<rparr>;
          st2 = generateSubkeys aes st1
      in (True,
          st2\<lparr>encryptNonce := 0, decryptNonce := 0, lastGood := 0, cs_late := 0, cs_lost := 0,
              needResync := False, initialized := True\<rparr>))"

text \<open>
  The nonce of a packet: a copy of the 16-byte nonce whose bytes 0 to 3 are overwritten with
  the counter, least significant byte first.
\<close>

definition packet_nonce :: "byte list \<Rightarrow> 32 word \<Rightarrow> byte list" where
  "packet_nonce base c =
     base[0 := ucast c, 1 := ucast (drop_bit 8 c), 2 := ucast (drop_bit 16 c),
          3 := ucast (drop_bit 24 c)]"

text \<open>
  \<^verbatim>\<open>ocbEncrypt(plain, encrypted, len, nonce, tag)\<close> reads \<open>len\<close> bytes of \<open>plain\<close> and returns
  the \<open>len\<close> bytes it writes through \<^verbatim>\<open>encrypted\<close>, and the tag. The two buffers are taken
  to be disjoint, as they are at both call sites for distinct \<^verbatim>\<open>src\<close> and \<^verbatim>\<open>dst\<close>. The loop
  state is (offset, checksum, bytes written so far).
\<close>

definition ocb_block ::
  "cipher \<Rightarrow> CryptState \<Rightarrow> byte list \<Rightarrow> nat \<Rightarrow> byte list \<times> byte list \<times> byte list
     \<Rightarrow> byte list \<times> byte list \<times> byte list" where
  "ocb_block aes st plain i s =
     (case s of (offset, checksum, encrypted) \<Rightarrow>
        let offset1 = xorBlock offset (cs_L st);
            p = map (\<lambda>j. plain ! (i * 16 + j)) [0..<16];
            tmp = xorBlock p offset1;
            enc = aes (cs_key st) tmp
        in (offset1, xorBlock checksum p, encrypted @ xorBlock enc offset1))"

definition ocbEncrypt ::
  "cipher \<Rightarrow> CryptState \<Rightarrow> byte list \<Rightarrow> nat \<Rightarrow> byte list \<Rightarrow> byte list \<times> byte list" where
  "ocbEncrypt aes st plain len nonce =
     (let fullBlocks = len div 16;
          (offset, checksum, encrypted) =
            fold (ocb_block aes st plain) [0..<fullBlocks]
              (aes (cs_key st) nonce, replicate 16 0, []);
          remaining = len mod 16;
          (offset1, checksum1, encrypted1) =
            (if remaining > 0 then
               let offset' = shift offset;
                   pad = aes (cs_key st) offset';
                   encrypted' = encrypted
                     @ map (\<lambda>i. plain ! (fullBlocks * 16 + i) XOR pad ! i) [0..<remaining];
                   checksum' = fold (\<lambda>i c. c[i := c ! i XOR plain ! (fullBlocks * 16 + i)])
                                 [0..<remaining] checksum
               in (offset', checksum'[remaining := checksum' ! remaining XOR 0x80], encrypted')
             else (offset, checksum, encrypted))
      in (encrypted1, aes (cs_key st) (xorBlock checksum1 offset1)))"

text \<open>Writing the bytes \<open>xs\<close> into a buffer from position \<open>pos\<close> on.\<close>

definition write_at :: "byte list \<Rightarrow> nat \<Rightarrow> byte list \<Rightarrow> byte list" where
  "write_at buf pos xs = fold (\<lambda>i b. b[pos + i := xs ! i]) [0..<length xs] buf"

text \<open>
  \<^verbatim>\<open>encrypt(src, dst, srcLen)\<close> returns the result, the destination buffer and the state.
\<close>

definition encrypt ::
  "cipher \<Rightarrow> CryptState \<Rightarrow> byte list \<Rightarrow> byte list \<Rightarrow> nat \<Rightarrow> bool \<times> byte list \<times> CryptState" where
  "encrypt aes st src dst srcLen =
     (if \<not> initialized st then (False, dst, st)
      else
        let st1 = st\<lparr>encryptNonce := encryptNonce st + 1\<rparr>;
            nonce = packet_nonce (clientNonce st1) (encryptNonce st1);
            dst1 = dst[0 := nonce ! 0];
            (encrypted, tag) = ocbEncrypt aes st1 src srcLen nonce;
            dst2 = write_at dst1 4 encrypted
        in (True, dst2[1 := tag ! 0, 2 := tag ! 1, 3 := tag ! 2], st1))"

text \<open>
  \<^verbatim>\<open>decrypt(src, dst, srcLen)\<close> returns the result, both buffers and the state. The call
  \<^verbatim>\<open>ocbEncrypt(dst, const_cast<uint8_t*>(src + 4), plainLen, nonce, expectedTag)\<close> passes \<^verbatim>\<open>dst\<close>
  as the buffer that is read and \<^verbatim>\<open>src + 4\<close> as the buffer that is written.
\<close>

definition decrypt ::
  "cipher \<Rightarrow> CryptState \<Rightarrow> byte list \<Rightarrow> byte list \<Rightarrow> nat
     \<Rightarrow> bool \<times> byte list \<times> byte list \<times> CryptState" where
  "decrypt aes st src dst srcLen =
     (if \<not> initialized st \<or> srcLen < 4 then (False, src, dst, st)
      else
        let nonceByte = src ! 0;
            diff = sint (nonceByte - ucast (decryptNonce st));
            predictedNonce = decryptNonce st + word_of_int diff;
            nonce = packet_nonce (serverNonce st) predictedNonce;
            plainLen = srcLen - 4;
            (encrypted, expectedTag) = ocbEncrypt aes st dst plainLen nonce;
            src1 = write_at src 4 encrypted
        in if expectedTag ! 0 \<noteq> src ! 1 \<or> expectedTag ! 1 \<noteq> src ! 2 \<or> expectedTag ! 2 \<noteq> src ! 3
           then (False, src1, dst, st\<lparr>needResync := True\<rparr>)
           else (True, src1, dst, st\<lparr>decryptNonce := predictedNonce + 1\<rparr>))"

text \<open>
  A stand-in block cipher for closed examples only (it is not AES): every theorem below is
  proved for an arbitrary \<open>aes\<close>, and the examples instantiate it with this function.
\<close>

definition example_cipher :: cipher where
  "example_cipher k b = map (\<lambda>i. (b ! i XOR k ! i) + 1) [0..<16]"

text \<open>
  The example states: a sender and a receiver initialised with the same key and mirrored
  nonces (the sender's client nonce is the receiver's server nonce), and the packet the
  fresh sender produces for the one-byte plaintext \<open>[1]\<close>.
\<close>

definition example_sender :: CryptState where
  "example_sender =
     snd (init example_cipher CryptState_new (replicate 16 0) (replicate 16 1) (replicate 16 2))"

definition example_receiver :: CryptState where
  "example_receiver =
     snd (init example_cipher CryptState_new (replicate 16 0) (replicate 16 2) (replicate 16 1))"

definition example_packet :: "byte list" where
  "example_packet = fst (snd (encrypt example_cipher example_sender [1] (replicate 5 0) 1))"

section \<open>MumbleClient: connect\<close>

text \<open>
  \<^verbatim>\<open>connect\<close> calls OpenSSL and the socket API. The results of these calls are inputs: a
  record \<open>ConnectEnv\<close> says what each external call returns during one \<^verbatim>\<open>connect\<close>. The
  handles \<^verbatim>\<open>sslCtx_\<close> and \<^verbatim>\<open>ssl_\<close> are modelled by whether they are non-null. The model follows
  the calling thread up to the return of \<^verbatim>\<open>connect\<close>; the receive thread that a successful
  \<^verbatim>\<open>connect\<close> starts is not part of it. \<^verbatim>\<open>SSL_new\<close> is taken to return a handle. The
  invocations of the state callback are recorded in \<open>stateEvents\<close>.
\<close>

datatype ConnectionState =
  Disconnected | Connecting | Connected | Synchronizing | Synchronized | Disconnecting | Failed

record ClientConfig =
  host :: string
  port :: int
  username :: string
  password :: string
  certificatePath :: string
  privateKeyPath :: string
  validateServerCertificate :: bool

record ConnectEnv =
  env_SSL_CTX_new :: bool
  env_use_certificate_file :: bool
  env_use_PrivateKey_file :: bool
  env_fopen :: bool
  env_d2i_PKCS12_fp :: bool
  env_PKCS12_parse :: bool
  env_p12_cert :: bool
  env_p12_pkey :: bool
  env_use_certificate :: bool
  env_use_PrivateKey :: bool
  env_getaddrinfo :: bool
  env_socket :: int
  env_connect :: bool
  env_SSL_connect :: bool

record MumbleClient =
  state :: ConnectionState
  running :: bool
  sslCtx :: bool
  ssl :: bool
  mc_socket :: int
  mc_config :: ClientConfig
  hasStateCallback :: bool
  stateEvents :: "ConnectionState list"

definition setState :: "MumbleClient \<Rightarrow> ConnectionState \<Rightarrow> MumbleClient" where
  "setState c s =
     (let c1 = c\<lparr>state := s\<rparr> in
      if hasStateCallback c1 then c1\<lparr>stateEvents := stateEvents c1 @ [s]\<rparr> else c1)"

definition loadCertificate :: "ConnectEnv \<Rightarrow> bool" where
  "loadCertificate env =
     (if env_use_certificate_file env \<and> env_use_PrivateKey_file env then True
      else if \<not> env_fopen env then False
      else if \<not> env_d2i_PKCS12_fp env then False
      else if \<not> env_PKCS12_parse env then False
      else
        let result = (if env_p12_cert env \<and> \<not> env_use_certificate env then False else True)
        in (if result \<and> env_p12_pkey env \<and> \<not> env_use_PrivateKey env then False else result))"

definition initSSL :: "ConnectEnv \<Rightarrow> MumbleClient \<Rightarrow> ClientConfig \<Rightarrow> bool \<times> MumbleClient" where
  "initSSL env c cfg =
     (let c1 = c\<lparr>sslCtx := env_SSL_CTX_new env\<rparr> in
      if \<not> sslCtx c1 then (False, c1)
      else if certificatePath cfg \<noteq> [] \<and> \<not> loadCertificate env then (False, c1)
      else (True, c1))"

definition cleanupSSL :: "MumbleClient \<Rightarrow> MumbleClient" where
  "cleanupSSL c =
     (let c1 = (if ssl c then c\<lparr>ssl := False\<rparr> else c)
      in (if sslCtx c1 then c1\<lparr>sslCtx := False\<rparr> else c1))"

definition connectSocket :: "ConnectEnv \<Rightarrow> MumbleClient \<Rightarrow> bool \<times> MumbleClient" where
  "connectSocket env c =
     (if \<not> env_getaddrinfo env then (False, c)
      else
        let c1 = c\<lparr>mc_socket := env_socket env\<rparr> in
        if mc_socket c1 < 0 then (False, c1)
        else if \<not> env_connect env then (False, c1\<lparr>mc_socket := -1\<rparr>)
        else (True, c1))"

text \<open>
  \<^verbatim>\<open>sendVersion\<close> only writes to the connection; \<^verbatim>\<open>sendAuthenticate\<close> writes and then sets the
  state \<open>Synchronizing\<close>.
\<close>

definition connect :: "ConnectEnv \<Rightarrow> MumbleClient \<Rightarrow> ClientConfig \<Rightarrow> bool \<times> MumbleClient" where
  "connect env c cfg =
     (if state c \<noteq> Disconnected then (False, c)
      else
        let c1 = setState (c\<lparr>mc_config := cfg\<rparr>) Connecting;
            (ok2, c2) = initSSL env c1 cfg
        in if \<not> ok2 then (False, setState c2 Failed)
           else
             let (ok3, c3) = connectSocket env c2
             in if \<not> ok3 then (False, setState (cleanupSSL c3) Failed)
                else
                  let c4 = c3\<lparr>ssl := True\<rparr>
                  in if \<not> env_SSL_connect env then (False, setState (cleanupSSL c4) Failed)
                     else
                       let c5 = (setState c4 Connected)\<lparr>running := True\<rparr>
                       in (True, setState c5 Synchronizing))"

text \<open>A freshly created client, and two environments for the examples.\<close>

definition MumbleClient_new :: MumbleClient where
  "MumbleClient_new =
     \<lparr> state = Disconnected, running = False, sslCtx = False, ssl = False, mc_socket = -1,
       mc_config = \<lparr> host = [], port = 64738, username = [], password = [],
                     certificatePath = [], privateKeyPath = [],
                     validateServerCertificate = False \<rparr>,
       hasStateCallback = True, stateEvents = [] \<rparr>"

definition example_config :: ClientConfig where
  "example_config =
     \<lparr> host = ''192.0.2.1'', port = 64738, username = ''user'', password = [],
       certificatePath = ''client.pem'', privateKeyPath = ''client.key'',
       validateServerCertificate = False \<rparr>"

definition env_all_ok :: ConnectEnv where
  "env_all_ok =
     \<lparr> env_SSL_CTX_new = True, env_use_certificate_file = True, env_use_PrivateKey_file = True,
       env_fopen = True, env_d2i_PKCS12_fp = True, env_PKCS12_parse = True, env_p12_cert = True,
       env_p12_pkey = True, env_use_certificate = True, env_use_PrivateKey = True,
       env_getaddrinfo = True, env_socket = 3, env_connect = True, env_SSL_connect = True \<rparr>"

definition env_handshake_fails :: ConnectEnv where
  "env_handshake_fails = env_all_ok\<lparr>env_SSL_connect := False\<rparr>"

definition env_certificate_fails :: ConnectEnv where
  "env_certificate_fails = env_all_ok\<lparr>env_use_certificate_file := False, env_fopen := False\<rparr>"

section \<open>UdpPing\<close>

text \<open>
  The ping thread runs \<^verbatim>\<open>pingLoop\<close> alone; the only thing another thread changes is the
  flag \<^verbatim>\<open>running_\<close> (cleared by \<^verbatim>\<open>stop\<close>). What the thread observes in one iteration is a
  \<open>PingStep\<close>: the value of \<^verbatim>\<open>running_\<close> at the loop head, the clock when the ping is sent,
  and the result of \<^verbatim>\<open>receiveResponse\<close> (the latency in microseconds when a reply that
  starts with 0x20 arrives in time, \<open>None\<close> on timeout or stop). The invocations of the
  callback are recorded in \<open>callbacks\<close>. In \<^verbatim>\<open>latency / 1000.0f\<close> the 64-bit count is
  converted to \<^verbatim>\<open>float\<close> and divided in single precision.
\<close>

record PingStep =
  ps_running :: bool
  ps_now :: int
  ps_response :: "int option"

record UdpPing =
  up_socket :: int
  up_running :: bool
  udpAvailable :: bool
  latencyMs :: real
  pingsSent :: "32 word"
  pongsReceived :: "32 word"
  lastPingTime :: int
  hasCallback :: bool
  callbacks :: "(bool \<times> real) list"

definition kMaxRetries :: int where
  "kMaxRetries = 3"


definition invoke_callback :: "UdpPing \<Rightarrow> bool \<Rightarrow> real \<Rightarrow> UdpPing" where
  "invoke_callback st success lat =
     (if hasCallback st then st\<lparr>callbacks := callbacks st @ [(success, lat)]\<rparr> else st)"

definition sendPing :: "UdpPing \<Rightarrow> int \<Rightarrow> UdpPing" where
  "sendPing st now = st\<lparr>lastPingTime := now, pingsSent := pingsSent st + 1\<rparr>"

definition receiveResponse :: "UdpPing \<Rightarrow> int option \<Rightarrow> bool \<times> UdpPing" where
  "receiveResponse st resp =
     (case resp of
        Some latency \<Rightarrow>
          (True, st\<lparr>latencyMs := fdiv (float_round (real_of_int latency)) 1000,
                    pongsReceived := pongsReceived st + 1\<rparr>)
      | None \<Rightarrow> (False, st))"

text \<open>One iteration of the \<^verbatim>\<open>while\<close> loop of \<^verbatim>\<open>pingLoop\<close> (the waiting loop changes nothing).\<close>

definition pingLoop_body :: "PingStep \<Rightarrow> int \<Rightarrow> UdpPing \<Rightarrow> int \<times> UdpPing" where
  "pingLoop_body e retries st =
     (let st1 = sendPing st (ps_now e);
          (ok, st2) = receiveResponse st1 (ps_response e)
      in if ok then
           let st3 = st2\<lparr>udpAvailable := True\<rparr>
           in (0, invoke_callback st3 True (latencyMs st3))
         else (retries + 1, st2))"

text \<open>The code after the loop.\<close>

definition pingLoop_exit :: "int \<Rightarrow> UdpPing \<Rightarrow> UdpPing" where
  "pingLoop_exit retries st =
     (if retries \<ge> kMaxRetries \<and> \<not> udpAvailable st then invoke_callback st False 0 else st)"

text \<open>
  \<^verbatim>\<open>pingLoop\<close> over a finite list of observations, as the list of the states at each loop
  head, followed by the state after the loop when the loop is left. When the observations
  run out while the loop could go on, the thread is still in the loop and the list ends at
  that loop head.
\<close>

fun pingLoop_trace :: "int \<Rightarrow> PingStep list \<Rightarrow> UdpPing \<Rightarrow> UdpPing list" where
  "pingLoop_trace retries [] st =
     (if retries < kMaxRetries then [st] else [st, pingLoop_exit retries st])"
| "pingLoop_trace retries (e # es) st =
     (if ps_running e \<and> retries < kMaxRetries
      then (case pingLoop_body e retries st of
              (retries', st') \<Rightarrow> st # pingLoop_trace retries' es st')
      else [st, pingLoop_exit retries st])"







section \<open>Helper lemmas\<close>

subsection \<open>Single-precision rounding\<close>

lemma rhe_of_int: "round_half_even (of_int n) = n"
  by (simp add: round_half_even_def)

lemma rhe_cases: "round_half_even t = \<lfloor>t\<rfloor> \<or> round_half_even t = \<lfloor>t\<rfloor> + 1"
  by (simp add: round_half_even_def Let_def)

lemma rhe_ge_floor: "\<lfloor>t\<rfloor> \<le> round_half_even t"
  using rhe_cases [of t] by linarith

lemma rhe_le_floor1: "round_half_even t \<le> \<lfloor>t\<rfloor> + 1"
  using rhe_cases [of t] by linarith

lemma rhe_mono:
  assumes "s \<le> t"
  shows "round_half_even s \<le> round_half_even t"
proof (cases "\<lfloor>s\<rfloor> = \<lfloor>t\<rfloor>")
  case True
  then show ?thesis
    using assms by (auto simp: round_half_even_def Let_def)
next
  case False
  have "\<lfloor>s\<rfloor> \<le> \<lfloor>t\<rfloor>"
    using assms by (rule floor_mono)
  with False have "\<lfloor>s\<rfloor> + 1 \<le> \<lfloor>t\<rfloor>"
    by linarith
  then show ?thesis
    using rhe_le_floor1 [of s] rhe_ge_floor [of t] by linarith
qed


lemma float_round_zero: "float_round 0 = 0"
  by (simp add: float_round_def)

lemma float_round_minus: "float_round (- x) = - float_round x"
  by (simp add: float_round_def Let_def sgn_minus)

lemma float_round_pos:
  assumes "0 < x" "2 powr of_int e \<le> x" "x < 2 powr (of_int e + 1)"
  shows "float_round x = 2 powr (of_int e - 23) * of_int (round_half_even (x / 2 powr (of_int e - 23)))"
proof -
  have "\<lfloor>log 2 x\<rfloor> = e"
    using assms by (simp add: floor_log_eq_powr_iff)
  then show ?thesis
    using assms(1) by (simp add: float_round_def Let_def)
qed

lemma exponent_exists:
  assumes "0 < (x::real)"
  shows "2 powr of_int \<lfloor>log 2 x\<rfloor> \<le> x \<and> x < 2 powr (of_int \<lfloor>log 2 x\<rfloor> + 1)"
  using assms floor_log_eq_powr_iff [of x 2 "\<lfloor>log 2 x\<rfloor>"] by simp

lemma float_round_nonneg:
  assumes "0 \<le> x"
  shows "0 \<le> float_round x"
proof (cases "x = 0")
  case True
  then show ?thesis by (simp add: float_round_zero)
next
  case False
  with assms have x: "0 < x" by simp
  define e where "e = \<lfloor>log 2 x\<rfloor>"
  define u where "u = (2::real) powr (of_int e - 23)"
  have u: "0 < u" by (simp add: u_def)
  have "0 \<le> x / u" using x u by simp
  then have "0 \<le> \<lfloor>x / u\<rfloor>" by simp
  then have "0 \<le> round_half_even (x / u)"
    using rhe_ge_floor [of "x / u"] by linarith
  then have "0 \<le> u * of_int (round_half_even (x / u))"
    using u by simp
  then show ?thesis
    using x by (simp add: float_round_def Let_def e_def u_def)
qed

lemma float_round_bounds:
  assumes x: "0 < x" and lo: "2 powr of_int e \<le> x" and hi: "x < 2 powr (of_int e + 1)"
  shows "2 powr of_int e \<le> float_round x \<and> float_round x \<le> 2 powr (of_int e + 1)"
proof -
  define u where "u = (2::real) powr (of_int e - 23)"
  have u: "0 < u" by (simp add: u_def)
  have lo_u: "2 powr of_int e = u * of_int ((2::int) ^ 23)"
    by (simp add: u_def powr_diff)
  have hi_u: "2 powr (of_int e + 1) = u * of_int ((2::int) ^ 24)"
    by (simp add: u_def powr_diff powr_add)
  have fr: "float_round x = u * of_int (round_half_even (x / u))"
    unfolding u_def using assms by (rule float_round_pos)
  have "of_int ((2::int) ^ 23) \<le> x / u"
    using lo u unfolding lo_u by (simp add: pos_le_divide_eq mult.commute)
  then have "round_half_even (of_int ((2::int) ^ 23)) \<le> round_half_even (x / u)"
    by (rule rhe_mono)
  then have a: "(2::int) ^ 23 \<le> round_half_even (x / u)"
    by (simp only: rhe_of_int)
  have "x / u \<le> of_int ((2::int) ^ 24)"
    using hi u unfolding hi_u by (simp add: pos_divide_le_eq mult.commute)
  then have "round_half_even (x / u) \<le> round_half_even (of_int ((2::int) ^ 24))"
    by (rule rhe_mono)
  then have b: "round_half_even (x / u) \<le> (2::int) ^ 24"
    by (simp only: rhe_of_int)
  have "u * of_int ((2::int) ^ 23) \<le> u * of_int (round_half_even (x / u))"
    using a u by (intro mult_left_mono) simp_all
  moreover have "u * of_int (round_half_even (x / u)) \<le> u * of_int ((2::int) ^ 24)"
    using b u by (intro mult_left_mono) simp_all
  ultimately show ?thesis
    unfolding fr lo_u hi_u by simp
qed

lemma float_round_mono_pos:
  assumes x: "0 < x" and xy: "x \<le> y"
  shows "float_round x \<le> float_round y"
proof -
  have y: "0 < y" using x xy by simp
  define e where "e = \<lfloor>log 2 x\<rfloor>"
  define d where "d = \<lfloor>log 2 y\<rfloor>"
  have ex: "2 powr of_int e \<le> x" "x < 2 powr (of_int e + 1)"
    using exponent_exists [OF x] by (simp_all add: e_def)
  have dy: "2 powr of_int d \<le> y" "y < 2 powr (of_int d + 1)"
    using exponent_exists [OF y] by (simp_all add: d_def)
  have "log 2 x \<le> log 2 y"
    using x xy by simp
  then have ed: "e \<le> d"
    unfolding e_def d_def by (rule floor_mono)
  show ?thesis
  proof (cases "e = d")
    case True
    define u where "u = (2::real) powr (of_int e - 23)"
    have u: "0 < u" by (simp add: u_def)
    have fx: "float_round x = u * of_int (round_half_even (x / u))"
      unfolding u_def using x ex by (rule float_round_pos)
    have fy: "float_round y = u * of_int (round_half_even (y / u))"
      unfolding u_def True using y dy by (rule float_round_pos)
    have "x / u \<le> y / u"
      using xy u by (simp add: divide_right_mono)
    then have "round_half_even (x / u) \<le> round_half_even (y / u)"
      by (rule rhe_mono)
    then show ?thesis
      unfolding fx fy using u by (intro mult_left_mono) simp_all
  next
    case False
    with ed have "e + 1 \<le> d" by linarith
    then have "(of_int e + 1 :: real) \<le> of_int d"
      by (metis of_int_1 of_int_add of_int_le_iff)
    then have "(2::real) powr (of_int e + 1) \<le> 2 powr of_int d"
      by (intro powr_mono) simp_all
    moreover have "float_round x \<le> 2 powr (of_int e + 1)"
      using float_round_bounds [OF x ex] by simp
    moreover have "2 powr of_int d \<le> float_round y"
      using float_round_bounds [OF y dy] by simp
    ultimately show ?thesis by linarith
  qed
qed

lemma float_round_mono:
  assumes "x \<le> y"
  shows "float_round x \<le> float_round y"
proof -
  consider "0 < x" | "x \<le> 0" "0 \<le> y" | "y < 0" by linarith
  then show ?thesis
  proof cases
    case 1
    then show ?thesis using assms by (rule float_round_mono_pos)
  next
    case 2
    have "float_round x = - float_round (- x)"
      by (simp add: float_round_minus)
    moreover have "0 \<le> float_round (- x)"
      using 2(1) by (intro float_round_nonneg) simp
    moreover have "0 \<le> float_round y"
      using 2(2) by (rule float_round_nonneg)
    ultimately show ?thesis by linarith
  next
    case 3
    have "float_round (- y) \<le> float_round (- x)"
      using 3 assms by (intro float_round_mono_pos) simp_all
    then show ?thesis
      by (simp add: float_round_minus)
  qed
qed

lemma float_round_representable_pos:
  assumes m: "0 < m" "m < 2 ^ 24"
  shows "float_round (of_int m * 2 powr of_int k) = of_int m * 2 powr of_int k"
proof -
  define x where "x = (of_int m :: real) * 2 powr of_int k"
  have x: "0 < x" using m by (simp add: x_def)
  define e where "e = \<lfloor>log 2 x\<rfloor>"
  define u where "u = (2::real) powr (of_int e - 23)"
  have u: "0 < u" by (simp add: u_def)
  have ex: "2 powr of_int e \<le> x" "x < 2 powr (of_int e + 1)"
    using exponent_exists [OF x] by (simp_all add: e_def)
  have fx: "float_round x = u * of_int (round_half_even (x / u))"
    unfolding u_def using x ex by (rule float_round_pos)
  have "x < of_int ((2::int) ^ 24) * 2 powr of_int k"
    unfolding x_def using m(2) by (intro mult_strict_right_mono) (simp_all only: of_int_less_iff, simp)
  also have "\<dots> = 2 powr (24 + of_int k)"
    by (simp add: powr_add)
  finally have "(2::real) powr of_int e < 2 powr (24 + of_int k)"
    using ex(1) by linarith
  then have "of_int e < (24 + of_int k :: real)"
    by simp
  then have "e < 24 + k"
    by linarith
  then have kk: "0 \<le> k + 23 - e" by linarith
  have "x / u = of_int m * 2 powr (of_int k - (of_int e - 23))"
    by (simp add: x_def u_def powr_diff)
  also have "of_int k - (of_int e - 23) = (of_int (k + 23 - e) :: real)"
    by simp
  also have "(2::real) powr of_int (k + 23 - e) = 2 ^ nat (k + 23 - e)"
    using kk powr_int [of "2::real" "k + 23 - e"] by (simp del: of_int_diff of_int_add)
  also have "of_int m * (2::real) ^ nat (k + 23 - e) = of_int (m * 2 ^ nat (k + 23 - e))"
    by simp
  finally have "x / u = of_int (m * 2 ^ nat (k + 23 - e))" .
  then have "of_int (round_half_even (x / u)) = x / u"
    by (simp only: rhe_of_int)
  then show ?thesis
    unfolding x_def [symmetric] fx using u by simp
qed

lemma float_round_representable:
  assumes "\<bar>m\<bar> < 2 ^ 24"
  shows "float_round (of_int m * 2 powr of_int k) = of_int m * 2 powr of_int k"
proof -
  consider "m = 0" | "0 < m" | "m < 0" by linarith
  then show ?thesis
  proof cases
    case 1
    then show ?thesis by (simp add: float_round_zero)
  next
    case 2
    then show ?thesis using assms by (intro float_round_representable_pos) simp_all
  next
    case 3
    then have "float_round (of_int (- m) * 2 powr of_int k) = of_int (- m) * 2 powr of_int k"
      using assms by (intro float_round_representable_pos) simp_all
    then have "float_round (- (of_int m * 2 powr of_int k)) = - (of_int m * 2 powr of_int k)"
      by simp
    then show ?thesis
      by (simp add: float_round_minus)
  qed
qed

lemma float_round_of_int:
  assumes "\<bar>m\<bar> < 2 ^ 24"
  shows "float_round (of_int m) = of_int m"
  using float_round_representable [OF assms, of 0] by simp

lemma float_round_eval:
  assumes "u = 2 powr (of_int e - 23)" "0 < x" "2 ^ 23 * u \<le> x" "x < 2 ^ 24 * u"
    and "round_half_even (x / u) = n"
  shows "float_round x = u * of_int n"
proof -
  have lo: "2 powr of_int e = 2 ^ 23 * u"
    by (simp add: assms(1) powr_diff)
  have hi: "2 powr (of_int e + 1) = 2 ^ 24 * u"
    by (simp add: assms(1) powr_diff powr_add)
  have "float_round x = 2 powr (of_int e - 23) * of_int (round_half_even (x / 2 powr (of_int e - 23)))"
    using assms(2-4) by (intro float_round_pos) (simp_all add: lo hi)
  then show ?thesis
    using assms(1,5) by simp
qed

lemma float_round_of_nat:
  assumes "n < 2 ^ 24"
  shows "float_round (real n) = real n"
proof -
  have "\<bar>int n\<bar> < 2 ^ 24" using assms by simp
  from float_round_of_int [OF this] show ?thesis by simp
qed

lemma sin_upper:
  assumes "0 < (x::real)"
  shows "sin x \<le> x - x ^ 3 / 6 + x ^ 5 / 120"
proof -
  obtain t where t: "sin x = (\<Sum>m<5. sin_coeff m * x ^ m) + (sin (t + 1/2 * real (5::nat) * pi) / fact 5) * x ^ 5"
    using Maclaurin_sin_expansion3 [of 5 x] assms by auto
  have s: "(\<Sum>m<5. sin_coeff m * x ^ m) = x - x ^ 3 / 6"
  proof -
    have "{..<5::nat} = {0, 1, 2, 3, 4}" by auto
    moreover have "sin_coeff 0 = 0" "sin_coeff 1 = 1" "sin_coeff 2 = 0" "sin_coeff 3 = - 1 / 6" "sin_coeff 4 = 0"
      by (simp_all add: sin_coeff_def fact_numeral)
    ultimately show ?thesis by simp
  qed
  have "sin (t + 1/2 * real (5::nat) * pi) \<le> 1"
    by (rule sin_le_one)
  then have "sin (t + 1/2 * real (5::nat) * pi) * x ^ 5 \<le> 1 * x ^ 5"
    using assms by (intro mult_right_mono) simp_all
  then have "(sin (t + 1/2 * real (5::nat) * pi) / fact 5) * x ^ 5 \<le> x ^ 5 / 120"
    by (simp add: fact_numeral)
  then show ?thesis
    unfolding t s by simp
qed

lemma pi_lower: "3138 / 1000 < pi"
proof (rule ccontr)
  assume "\<not> 3138 / 1000 < pi"
  then have le: "pi / 6 \<le> 523 / 1000" by simp
  define x where "x = pi / 6"
  define c :: real where "c = 523 / 1000"
  have x0: "0 < x" by (simp add: x_def)
  have xc: "x \<le> c" using le by (simp add: x_def c_def)
  have c1: "c \<le> 1" by (simp add: c_def)
  have "sin x = 1 / 2"
    by (simp add: x_def sin_30)
  then have h: "1 / 2 \<le> x - x ^ 3 / 6 + x ^ 5 / 120"
    using sin_upper [OF x0] by simp
  have xx: "x * x \<le> 1 * 1" using x0 xc c1 by (intro mult_mono) simp_all
  have cx: "c * x \<le> 1 * 1" using x0 xc c1 by (intro mult_mono) simp_all
  have cc: "c * c \<le> 1 * 1" using c1 by (intro mult_mono) (simp_all add: c_def)
  have "0 \<le> (c - x) * (1 - (c * c + c * x + x * x) / 6)"
    using xc xx cx cc by (intro mult_nonneg_nonneg) simp_all
  also have "\<dots> = (c - c ^ 3 / 6) - (x - x ^ 3 / 6)"
    by (simp add: field_simps power3_eq_cube)
  finally have a: "x - x ^ 3 / 6 \<le> c - c ^ 3 / 6" by simp
  have b: "x ^ 5 \<le> c ^ 5"
    using x0 xc by (intro power_mono) simp_all
  have "c - c ^ 3 / 6 + c ^ 5 / 120 < 1 / 2"
    by (simp add: c_def power_divide)
  with a b h show False by simp
qed

subsection \<open>Buffers\<close>

lemma evict_eq:
  "evict mx b ov = (drop (length b - mx) b, ov + of_nat (length b - mx))"
proof (induction b arbitrary: ov)
  case Nil
  show ?case by simp
next
  case (Cons x xs)
  show ?case
  proof (cases "length (x # xs) > mx")
    case True
    then have "length (x # xs) - mx = Suc (length xs - mx)" by simp
    with True Cons show ?thesis by simp
  next
    case False
    then show ?thesis by simp
  qed
qed


lemma length_fill [simp]: "length (fill p lo hi v) = length p"
proof -
  have "length (fold (\<lambda>i q. q[i := v]) is p) = length p" for "is"
    by (induction "is" arbitrary: p) auto
  then show ?thesis by (simp add: fill_def)
qed

lemma nth_fill:
  "i < length p \<Longrightarrow> fill p lo hi v ! i = (if lo \<le> i \<and> i < hi then v else p ! i)"
proof (induction hi)
  case 0
  then show ?case by (simp add: fill_def)
next
  case (Suc hi)
  show ?case
  proof (cases "lo \<le> hi")
    case True
    then have "fill p lo (Suc hi) v = (fill p lo hi v)[hi := v]"
      by (simp add: fill_def)
    then have "fill p lo (Suc hi) v ! i = (if i = hi then v else fill p lo hi v ! i)"
      using Suc.prems by (simp add: nth_list_update)
    with Suc True show ?thesis by auto
  next
    case False
    then show ?thesis by (auto simp: fill_def)
  qed
qed

text \<open>
  The conversion of a 16-bit sample to \<^verbatim>\<open>float\<close> and its division by \<open>2 ^ 15\<close> are exact.
\<close>

lemma sample_to_float:
  "fdiv (float_round (real_of_int (sint (s :: 16 word)))) 32768 = real_of_int (sint s) / 32768"
proof -
  have "- (2 ^ (LENGTH(16) - 1)) \<le> sint s" "sint s < 2 ^ (LENGTH(16) - 1)"
    by (rule sint_ge, rule sint_lt)
  then have b: "\<bar>sint s\<bar> < 2 ^ 24"
    by simp
  have a: "float_round (real_of_int (sint s)) = real_of_int (sint s)"
    using b by (rule float_round_of_int)
  have "float_round (real_of_int (sint s) * 2 powr of_int (- 15)) = real_of_int (sint s) * 2 powr of_int (- 15)"
    using b by (rule float_round_representable)
  then show ?thesis
    unfolding fdiv_def a by (simp add: powr_minus field_simps)
qed

lemma convertToFloat_eq:
  "convertToFloat st input = st\<lparr>buffer := buffer st @ map (\<lambda>s. real_of_int (sint s) / 32768) input\<rparr>"
  unfolding convertToFloat_def
  by (induction input arbitrary: st) (simp_all add: sample_to_float del: of_int_sint)

lemma readFloat_copy_eq:
  "n \<le> length buf \<Longrightarrow> n \<le> length output \<Longrightarrow>
   readFloat_copy n output buf = (take n buf @ drop n output, drop n buf)"
proof (induction n)
  case 0
  then show ?case by (simp add: readFloat_copy_def)
next
  case (Suc n)
  then have IH: "readFloat_copy n output buf = (take n buf @ drop n output, drop n buf)"
    by simp
  from Suc.prems obtain x xs where dx: "drop n buf = x # xs"
    by (cases "drop n buf") auto
  then have x: "x = buf ! n" and xs: "xs = drop (Suc n) buf"
    using Suc.prems by (metis Cons_nth_drop_Suc Suc_le_lessD list.inject)+
  have "readFloat_copy (Suc n) output buf =
        (case readFloat_copy n output buf of (out, b) \<Rightarrow>
           (case b of [] \<Rightarrow> (out, b) | x # xs \<Rightarrow> (out[n := x], xs)))"
    by (simp add: readFloat_copy_def)
  also have "\<dots> = ((take n buf @ drop n output)[n := x], xs)"
    by (simp add: IH dx)
  also have "(take n buf @ drop n output)[n := x] = take (Suc n) buf @ drop (Suc n) output"
    using Suc.prems x
    by (simp add: list_update_append take_Suc_conv_app_nth upd_conv_take_nth_drop drop_Suc
        Cons_nth_drop_Suc)
  finally show ?case by (simp add: xs)
qed


lemma length_fadeIn_loop:
  "length (fold (\<lambda>i s. s[i := fmul (s ! i) (tbl ! i)]) js s) = length s"
  by (induction js arbitrary: s) auto

lemma length_applyFadeIn [simp]: "length (applyFadeIn cf s n) = length s"
  unfolding applyFadeIn_def Let_def by (rule length_fadeIn_loop)

lemma fadeIn_loop_nth:
  "j < length s \<Longrightarrow>
   fold (\<lambda>i s. s[i := fmul (s ! i) (tbl ! i)]) [0..<m] s ! j =
     (if j < m then fmul (s ! j) (tbl ! j) else s ! j)"
proof (induction m arbitrary: j)
  case 0
  then show ?case by simp
next
  case (Suc m)
  let ?t = "fold (\<lambda>i s. s[i := fmul (s ! i) (tbl ! i)]) [0..<m] s"
  have step: "fold (\<lambda>i s. s[i := fmul (s ! i) (tbl ! i)]) [0..<Suc m] s = ?t[m := fmul (?t ! m) (tbl ! m)]"
    by simp
  show ?case
  proof (cases "j = m")
    case True
    with Suc.prems have "m < length s" by simp
    then have "?t ! m = s ! m" using Suc.IH [of m] by simp
    with True Suc.prems show ?thesis
      unfolding step by (simp add: length_fadeIn_loop)
  next
    case False
    with Suc.prems Suc.IH [of j] show ?thesis
      unfolding step by (auto simp: length_fadeIn_loop)
  qed
qed

lemma applyFadeIn_nth:
  "j < length s \<Longrightarrow>
   applyFadeIn cf s n ! j =
     (if j < min n (fadeLength cf) then fmul (s ! j) (fadeIn cf ! j) else s ! j)"
  unfolding applyFadeIn_def Let_def by (rule fadeIn_loop_nth)

lemma length_fadeOut_loop:
  "length (fold (\<lambda>i s. s[a + i := fmul (s ! (a + i)) (tbl ! (b + i))]) js s) = length s"
  by (induction js arbitrary: s) auto

lemma length_applyFadeOut [simp]: "length (applyFadeOut cf s n) = length s"
  unfolding applyFadeOut_def Let_def by (rule length_fadeOut_loop)

lemma fadeOut_loop_nth:
  "j < length s \<Longrightarrow>
   fold (\<lambda>i s. s[a + i := fmul (s ! (a + i)) (tbl ! (b + i))]) [0..<m] s ! j =
     (if a \<le> j \<and> j < a + m then fmul (s ! j) (tbl ! (b + (j - a))) else s ! j)"
proof (induction m arbitrary: j)
  case 0
  then show ?case by auto
next
  case (Suc m)
  let ?t = "fold (\<lambda>i s. s[a + i := fmul (s ! (a + i)) (tbl ! (b + i))]) [0..<m] s"
  have step: "fold (\<lambda>i s. s[a + i := fmul (s ! (a + i)) (tbl ! (b + i))]) [0..<Suc m] s
              = ?t[a + m := fmul (?t ! (a + m)) (tbl ! (b + m))]"
    by simp
  show ?case
  proof (cases "j = a + m")
    case True
    with Suc.prems have "a + m < length s" by simp
    then have "?t ! (a + m) = s ! (a + m)" using Suc.IH [of "a + m"] by simp
    with True Suc.prems show ?thesis
      unfolding step by (simp add: length_fadeOut_loop)
  next
    case False
    with Suc.prems Suc.IH [of j] show ?thesis
      unfolding step by (auto simp: length_fadeOut_loop)
  qed
qed

lemma applyFadeOut_nth:
  "j < length s \<Longrightarrow>
   applyFadeOut cf s n ! j =
     (if n - min n (fadeLength cf) \<le> j \<and> j < n
      then fmul (s ! j)
             (fadeOut cf ! (fadeLength cf - min n (fadeLength cf) + (j - (n - min n (fadeLength cf)))))
      else s ! j)"
proof -
  assume j: "j < length s"
  have eq: "n - min n (fadeLength cf) + min n (fadeLength cf) = n" by simp
  show ?thesis
    unfolding applyFadeOut_def Let_def
    using fadeOut_loop_nth [OF j, of "n - min n (fadeLength cf)" "fadeOut cf"
        "fadeLength cf - min n (fadeLength cf)" "min n (fadeLength cf)"]
    unfolding eq .
qed

lemma detect_sequenceGaps:
  "sequenceGaps (stats (detectSequenceGap st sequence)) =
     (if 0 \<le> uab_lastSequence st \<and> sequence - uab_lastSequence st > sequenceIncrement st
      then sequenceGaps (stats st) + 1 else sequenceGaps (stats st))"
  by (simp add: detectSequenceGap_def Let_def)

lemma detect_sequenceIncrement:
  "sequenceIncrement (detectSequenceGap st sequence) =
     (if 0 \<le> uab_lastSequence st \<and> sequence \<noteq> uab_lastSequence st + sequenceIncrement st
         \<and> 0 < sequence - uab_lastSequence st \<and> sequence - uab_lastSequence st < 100
      then sequence - uab_lastSequence st else sequenceIncrement st)"
  by (simp add: detectSequenceGap_def Let_def)

lemma detect_other:
  "buffer (detectSequenceGap st sequence) = buffer st"
  "maxBufferSize (detectSequenceGap st sequence) = maxBufferSize st"
  "minBufferSize (detectSequenceGap st sequence) = minBufferSize st"
  "playbackStarted (detectSequenceGap st sequence) = playbackStarted st"
  "needsFadeIn (detectSequenceGap st sequence) = needsFadeIn st"
  "needsFadeOut (detectSequenceGap st sequence) = needsFadeOut st"
  "crossfade (detectSequenceGap st sequence) = crossfade st"
  "bufferOverruns (stats (detectSequenceGap st sequence)) = bufferOverruns (stats st)"
  "fadeIns (stats (detectSequenceGap st sequence)) = fadeIns (stats st)"
  by (simp_all add: detectSequenceGap_def Let_def)

text \<open>\<^verbatim>\<open>addSamples\<close> with its loops replaced by their closed forms.\<close>

lemma addSamples_unfold:
  "addSamples st now samples sequence isPLC =
    (let st3 = detectSequenceGap
                 ((if uab_lastSequence st \<ge> 0
                      \<and> tdiv (now - lastPacketTime st) 1000000 > maxGapMs (stats st)
                   then st\<lparr>stats := (stats st)\<lparr>maxGapMs :=
                           sint (word_of_int (tdiv (now - lastPacketTime st) 1000000) :: 32 word)\<rparr>\<rparr>
                   else st)\<lparr>lastPacketTime := now\<rparr>) sequence;
         b = buffer st3 @ map (\<lambda>s. real_of_int (sint s) / 32768) samples;
         k = length b - maxBufferSize st3
     in st3\<lparr>uab_lastSequence := sequence, buffer := drop k b,
            stats := (stats st3)\<lparr>
              packetsReceived := packetsReceived (stats st3) + 1,
              plcFrames := (if isPLC then plcFrames (stats st3) + 1 else plcFrames (stats st3)),
              packetsDecoded := (if isPLC then packetsDecoded (stats st3)
                                 else packetsDecoded (stats st3) + 1),
              lastSequence := sequence,
              bufferOverruns := bufferOverruns (stats st3) + of_nat k,
              currentBufferSize := length (drop k b)\<rparr>\<rparr>)"
  unfolding addSamples_def
  by (simp add: convertToFloat_eq evict_eq Let_def)

lemma addSamples_sequenceGaps:
  "sequenceGaps (stats (addSamples st now samples sequence isPLC)) =
     (if 0 \<le> uab_lastSequence st \<and> sequence - uab_lastSequence st > sequenceIncrement st
      then sequenceGaps (stats st) + 1 else sequenceGaps (stats st))"
  by (simp add: addSamples_unfold Let_def detect_sequenceGaps)

lemma addSamples_sequenceIncrement:
  "sequenceIncrement (addSamples st now samples sequence isPLC) =
     (if 0 \<le> uab_lastSequence st \<and> sequence \<noteq> uab_lastSequence st + sequenceIncrement st
         \<and> 0 < sequence - uab_lastSequence st \<and> sequence - uab_lastSequence st < 100
      then sequence - uab_lastSequence st else sequenceIncrement st)"
  by (simp add: addSamples_unfold Let_def detect_sequenceIncrement)

lemma addSamples_lastSequence:
  "uab_lastSequence (addSamples st now samples sequence isPLC) = sequence"
  "lastSequence (stats (addSamples st now samples sequence isPLC)) = sequence"
  by (simp_all add: addSamples_unfold Let_def)

lemma addSamples_buffer:
  "buffer (addSamples st now samples sequence isPLC) =
     drop (length (buffer st) + length samples - maxBufferSize st)
       (buffer st @ map (\<lambda>s. real_of_int (sint s) / 32768) samples)"
  by (simp add: addSamples_unfold Let_def detect_other)

lemma addSamples_bufferOverruns:
  "bufferOverruns (stats (addSamples st now samples sequence isPLC)) =
     bufferOverruns (stats st) + of_nat (length (buffer st) + length samples - maxBufferSize st)"
  by (simp add: addSamples_unfold Let_def detect_other)

lemma addSamples_other:
  "maxBufferSize (addSamples st now samples sequence isPLC) = maxBufferSize st"
  "minBufferSize (addSamples st now samples sequence isPLC) = minBufferSize st"
  "playbackStarted (addSamples st now samples sequence isPLC) = playbackStarted st"
  "needsFadeIn (addSamples st now samples sequence isPLC) = needsFadeIn st"
  "needsFadeOut (addSamples st now samples sequence isPLC) = needsFadeOut st"
  "crossfade (addSamples st now samples sequence isPLC) = crossfade st"
  "fadeIns (stats (addSamples st now samples sequence isPLC)) = fadeIns (stats st)"
  by (simp_all add: addSamples_unfold Let_def detect_other)

lemma fill_empty: "hi \<le> lo \<Longrightarrow> fill p lo hi v = p"
  by (simp add: fill_def)

lemma readFloat_normal:
  assumes "playbackStarted st \<or> minBufferSize st \<le> length (buffer st)"
    and "buffer st \<noteq> []" and "frames \<le> length output"
  shows "readFloat st output frames =
     (let n = min frames (length (buffer st));
          fi = (needsFadeIn st \<or> \<not> playbackStarted st);
          fo = (needsFadeOut st \<and> length (buffer st) \<le> frames);
          out2 = fill (take n (buffer st) @ drop n output) n frames 0;
          out3 = (if fi then applyFadeIn (crossfade st) out2 n else out2);
          out4 = (if fo then applyFadeOut (crossfade st) out3 n else out3)
      in (n, out4,
          st\<lparr>playbackStarted := True, buffer := drop n (buffer st), needsFadeIn := False,
             needsFadeOut := (needsFadeOut st \<and> \<not> length (buffer st) \<le> frames),
             stats := (stats st)\<lparr>
               fadeIns := (if fi then fadeIns (stats st) + 1 else fadeIns (stats st)),
               fadeOuts := (if fo then fadeOuts (stats st) + 1 else fadeOuts (stats st)),
               currentBufferSize := length (buffer st) - n\<rparr>\<rparr>))"
  using assms
  unfolding readFloat_def
  by (cases "playbackStarted st"; cases "needsFadeIn st"; cases "needsFadeOut st";
      cases "length (buffer st) \<le> frames"; cases "frames \<le> length (buffer st)")
     (simp_all add: Let_def readFloat_copy_eq fill_empty)

lemma readFloat_silent:
  "\<not> playbackStarted st \<Longrightarrow> length (buffer st) < minBufferSize st \<Longrightarrow>
   readFloat st output frames = (0, fill output 0 frames 0, st)"
  by (simp add: readFloat_def)

lemma readFloat_underrun:
  "playbackStarted st \<or> minBufferSize st \<le> length (buffer st) \<Longrightarrow> buffer st = [] \<Longrightarrow>
   readFloat st output frames =
     (0, fill output 0 frames 0,
      st\<lparr>playbackStarted := False, needsFadeIn := True,
         stats := (stats st)\<lparr>bufferUnderruns := bufferUnderruns (stats st) + 1\<rparr>\<rparr>)"
  unfolding readFloat_def by (cases "playbackStarted st") (simp_all add: Let_def)

lemma take_fill_zero:
  "frames \<le> length output \<Longrightarrow> take frames (fill output 0 frames v) = replicate frames v"
  by (rule nth_equalityI) (simp_all add: nth_fill)

lemma drop_fill:
  "drop hi (fill p lo hi v) = drop hi p"
  by (rule nth_equalityI) (simp_all add: nth_fill)

lemma readFloat_ret:
  assumes "frames \<le> length output"
  shows "fst (readFloat st output frames) =
     (if \<not> playbackStarted st \<and> length (buffer st) < minBufferSize st then 0
      else min frames (length (buffer st)))"
proof (cases "\<not> playbackStarted st \<and> length (buffer st) < minBufferSize st")
  case True
  then show ?thesis by (simp add: readFloat_silent)
next
  case False
  then have ready: "playbackStarted st \<or> minBufferSize st \<le> length (buffer st)" by auto
  show ?thesis
  proof (cases "buffer st = []")
    case True
    with False ready show ?thesis by (simp add: readFloat_underrun)
  next
    case False
    with ready assms \<open>\<not> (\<not> playbackStarted st \<and> length (buffer st) < minBufferSize st)\<close>
    show ?thesis by (auto simp add: readFloat_normal Let_def)
  qed
qed

lemma readFloat_buffer:
  assumes "frames \<le> length output"
  shows "buffer (snd (snd (readFloat st output frames))) =
     (if \<not> playbackStarted st \<and> length (buffer st) < minBufferSize st then buffer st
      else drop (min frames (length (buffer st))) (buffer st))"
proof (cases "\<not> playbackStarted st \<and> length (buffer st) < minBufferSize st")
  case True
  then show ?thesis by (simp add: readFloat_silent)
next
  case False
  then have ready: "playbackStarted st \<or> minBufferSize st \<le> length (buffer st)" by auto
  show ?thesis
  proof (cases "buffer st = []")
    case True
    with False ready show ?thesis by (simp add: readFloat_underrun)
  next
    case False
    with ready assms \<open>\<not> (\<not> playbackStarted st \<and> length (buffer st) < minBufferSize st)\<close>
    show ?thesis by (auto simp add: readFloat_normal Let_def)
  qed
qed

lemma readFloat_maxBufferSize:
  assumes "frames \<le> length output"
  shows "maxBufferSize (snd (snd (readFloat st output frames))) = maxBufferSize st"
proof (cases "\<not> playbackStarted st \<and> length (buffer st) < minBufferSize st")
  case True
  then show ?thesis by (simp add: readFloat_silent)
next
  case False
  then have ready: "playbackStarted st \<or> minBufferSize st \<le> length (buffer st)" by auto
  show ?thesis
  proof (cases "buffer st = []")
    case True
    with ready show ?thesis by (simp add: readFloat_underrun)
  next
    case False
    with ready assms show ?thesis by (simp add: readFloat_normal Let_def)
  qed
qed

lemma readFloat_out_nth:
  assumes "playbackStarted st \<or> minBufferSize st \<le> length (buffer st)"
    and "buffer st \<noteq> []" and "frames \<le> length output" and "i < frames"
  shows "fst (snd (readFloat st output frames)) ! i =
     (let n = min frames (length (buffer st));
          L = fadeLength (crossfade st);
          x0 = (if i < n then buffer st ! i else 0);
          x1 = (if (needsFadeIn st \<or> \<not> playbackStarted st) \<and> i < min n L
                then fmul x0 (fadeIn (crossfade st) ! i) else x0)
      in if needsFadeOut st \<and> length (buffer st) \<le> frames \<and> n - min n L \<le> i \<and> i < n
         then fmul x1 (fadeOut (crossfade st) ! (L - min n L + (i - (n - min n L))))
         else x1)"
proof -
  define n where "n = min frames (length (buffer st))"
  define out2 where "out2 = fill (take n (buffer st) @ drop n output) n frames 0"
  define out3 where "out3 = (if needsFadeIn st \<or> \<not> playbackStarted st
                             then applyFadeIn (crossfade st) out2 n else out2)"
  define out4 where "out4 = (if needsFadeOut st \<and> length (buffer st) \<le> frames
                             then applyFadeOut (crossfade st) out3 n else out3)"
  have n_le: "n \<le> length (buffer st)" "n \<le> length output"
    using assms(3) by (simp_all add: n_def)
  have len2: "length out2 = length output"
    using n_le by (simp add: out2_def)
  have len3: "length out3 = length output"
    using len2 by (simp add: out3_def)
  have i2: "i < length out2" and i3: "i < length out3"
    using assms(3,4) len2 len3 by simp_all
  have v2: "out2 ! i = (if i < n then buffer st ! i else 0)"
    using assms(3,4) n_le by (auto simp add: out2_def nth_fill nth_append)
  have v3: "out3 ! i = (if (needsFadeIn st \<or> \<not> playbackStarted st) \<and> i < min n (fadeLength (crossfade st))
                        then fmul (out2 ! i) (fadeIn (crossfade st) ! i) else out2 ! i)"
    unfolding out3_def using applyFadeIn_nth [OF i2, of "crossfade st" n] by simp
  have v4: "out4 ! i =
     (if needsFadeOut st \<and> length (buffer st) \<le> frames
         \<and> n - min n (fadeLength (crossfade st)) \<le> i \<and> i < n
      then fmul (out3 ! i) (fadeOut (crossfade st) !
             (fadeLength (crossfade st) - min n (fadeLength (crossfade st))
              + (i - (n - min n (fadeLength (crossfade st))))))
      else out3 ! i)"
    unfolding out4_def using applyFadeOut_nth [OF i3, of "crossfade st" n] by simp
  have "fst (snd (readFloat st output frames)) = out4"
    unfolding readFloat_normal [OF assms(1,2,3)] Let_def out4_def out3_def out2_def n_def
    by simp
  then show ?thesis
    unfolding Let_def n_def [symmetric] by (simp only: v4 v3 v2)
qed

lemma create_default:
  "minBufferSize (UserAudioBuffer_create sinf uid UabConfig_default now) = 2880"
  "maxBufferSize (UserAudioBuffer_create sinf uid UabConfig_default now) = 9600"
  "crossfade (UserAudioBuffer_create sinf uid UabConfig_default now) = Crossfade_create sinf 480"
  by (simp_all add: UserAudioBuffer_create_def UabConfig_default_def size_t_of_int_def tdiv_def)

lemma create_state:
  "buffer (UserAudioBuffer_create sinf uid cfg now) = []"
  "\<not> playbackStarted (UserAudioBuffer_create sinf uid cfg now)"
  "needsFadeIn (UserAudioBuffer_create sinf uid cfg now)"
  "\<not> needsFadeOut (UserAudioBuffer_create sinf uid cfg now)"
  "fadeIns (stats (UserAudioBuffer_create sinf uid cfg now)) = 0"
  "bufferOverruns (stats (UserAudioBuffer_create sinf uid cfg now)) = 0"
  by (simp_all add: UserAudioBuffer_create_def Stats_init_def)

lemma Crossfade_create_fields:
  "fadeLength (Crossfade_create sinf F) = F"
  "length (fadeIn (Crossfade_create sinf F)) = F"
  "i < F \<Longrightarrow> fadeIn (Crossfade_create sinf F) ! i
     = sinf (fmul (float_round (real i)) (fdiv pi_f (fmul 2 (float_round (real F)))))"
  by (simp_all add: Crossfade_create_def Let_def)

text \<open>The factor \<^verbatim>\<open>mul\<close> of the default table and the largest argument of its sine.\<close>

lemma fmul_2_480: "fmul 2 (float_round (real (480::nat))) = 960"
proof -
  have "float_round (real (480::nat)) = 480"
    using float_round_of_nat [of 480] by simp
  moreover have "fmul 2 480 = 960"
    using float_round_of_nat [of 960] by (simp add: fmul_def)
  ultimately show ?thesis by simp
qed

lemma mul_default: "fdiv pi_f 960 = 878453 / 268435456"
proof -
  have "float_round (13176795 / 4194304 / 960) = (1 / 2 ^ 32) * of_int 14055248"
    by (rule float_round_eval [where e = "- 9"])
      (simp_all add: powr_minus round_half_even_def field_simps)
  then show ?thesis
    unfolding fdiv_def pi_f_def by simp
qed

lemma arg_479: "fmul (real (479::nat)) (878453 / 268435456) = 13149343 / 8388608"
proof -
  have "float_round (479 * (878453 / 268435456)) = (1 / 2 ^ 23) * of_int 13149343"
    by (rule float_round_eval [where e = 0])
      (simp_all add: powr_minus round_half_even_def field_simps)
  then show ?thesis
    unfolding fmul_def by simp
qed

lemma default_gain:
  assumes "i < 480"
  shows "fadeIn (Crossfade_create sinf 480) ! i = sinf (fmul (real i) (fdiv pi_f 960))"
proof -
  have "float_round (real i) = real i"
    using assms by (intro float_round_of_nat) simp
  then show ?thesis
    using assms fmul_2_480 by (simp add: Crossfade_create_fields)
qed

lemma default_arg_range:
  assumes "i \<le> j" "j < 480"
  shows "0 \<le> fmul (real i) (fdiv pi_f 960)"
    and "fmul (real i) (fdiv pi_f 960) \<le> fmul (real j) (fdiv pi_f 960)"
    and "fmul (real j) (fdiv pi_f 960) \<le> pi / 2"
proof -
  define m :: real where "m = 878453 / 268435456"
  have m: "0 \<le> m" by (simp add: m_def)
  show "0 \<le> fmul (real i) (fdiv pi_f 960)"
    unfolding mul_default m_def [symmetric] fmul_def
    using m by (intro float_round_nonneg mult_nonneg_nonneg) simp_all
  have "real i * m \<le> real j * m"
    using assms(1) m by (intro mult_right_mono) simp_all
  then show "fmul (real i) (fdiv pi_f 960) \<le> fmul (real j) (fdiv pi_f 960)"
    unfolding mul_default m_def [symmetric] fmul_def by (rule float_round_mono)
  have "real j * m \<le> real (479::nat) * m"
    using assms(2) m by (intro mult_right_mono) simp_all
  then have "fmul (real j) m \<le> fmul (real (479::nat)) m"
    unfolding fmul_def by (rule float_round_mono)
  also have "\<dots> = 13149343 / 8388608"
    unfolding m_def by (rule arg_479)
  also have "\<dots> \<le> pi / 2"
    using pi_lower by simp
  finally show "fmul (real j) (fdiv pi_f 960) \<le> pi / 2"
    unfolding mul_default m_def [symmetric] .
qed

lemma example_sinf_mono:
  assumes "0 \<le> x" "x \<le> y" "y \<le> pi / 2"
  shows "example_sinf x \<le> example_sinf y"
proof -
  have "- (pi / 2) \<le> x"
    using assms(1) pi_ge_zero by linarith
  then have "sin x \<le> sin y"
    using assms(2,3) by (rule sin_monotone_2pi_le)
  then show ?thesis
    unfolding example_sinf_def by (rule float_round_mono)
qed

text \<open>A sequence of \<^verbatim>\<open>addSamples\<close> calls that does not overrun the buffer.\<close>

lemma addSamples_calls_other:
  "maxBufferSize (addSamples_calls st calls) = maxBufferSize st"
  "minBufferSize (addSamples_calls st calls) = minBufferSize st"
  "playbackStarted (addSamples_calls st calls) = playbackStarted st"
  "needsFadeIn (addSamples_calls st calls) = needsFadeIn st"
  "needsFadeOut (addSamples_calls st calls) = needsFadeOut st"
  "crossfade (addSamples_calls st calls) = crossfade st"
  "fadeIns (stats (addSamples_calls st calls)) = fadeIns (stats st)"
  unfolding addSamples_calls_def
  by (induction calls arbitrary: st; simp add: addSamples_other split: prod.splits)+

lemma addSamples_calls_buffer:
  assumes "length (buffer st) + length (samples_of calls) \<le> maxBufferSize st"
  shows "buffer (addSamples_calls st calls)
     = buffer st @ map (\<lambda>s. real_of_int (sint s) / 32768) (samples_of calls)"
  using assms
proof (induction calls arbitrary: st)
  case Nil
  show ?case by (simp add: addSamples_calls_def samples_of_def)
next
  case (Cons c calls)
  obtain now samples sq plc where c: "c = (now, samples, sq, plc)"
    by (cases c) auto
  define st1 where "st1 = addSamples st now samples sq plc"
  have so: "samples_of (c # calls) = samples @ samples_of calls"
    by (simp add: samples_of_def c)
  have step: "addSamples_calls st (c # calls) = addSamples_calls st1 calls"
    by (simp add: addSamples_calls_def c st1_def)
  have le: "length (buffer st) + length samples \<le> maxBufferSize st"
    using Cons.prems by (simp add: so)
  then have b1: "buffer st1 = buffer st @ map (\<lambda>s. real_of_int (sint s) / 32768) samples"
    by (simp add: st1_def addSamples_buffer)
  have m1: "maxBufferSize st1 = maxBufferSize st"
    by (simp add: st1_def addSamples_other)
  have "length (buffer st1) + length (samples_of calls) \<le> maxBufferSize st1"
    using Cons.prems by (simp add: b1 m1 so)
  then have "buffer (addSamples_calls st1 calls)
     = buffer st1 @ map (\<lambda>s. real_of_int (sint s) / 32768) (samples_of calls)"
    by (rule Cons.IH)
  then show ?case
    unfolding step by (simp add: b1 so)
qed

lemma example_samples: "samples_of example_calls = replicate 2880 16384"
proof -
  have "[0..<6] = [0, 1, 2, 3, 4, 5::nat]"
    by (simp add: upt_rec)
  then have "samples_of example_calls = replicate (480 + 480 + 480 + 480 + 480 + 480) 16384"
    unfolding example_calls_def samples_of_def by (simp only: replicate_add list.map concat.simps prod.case append_Nil2 append_assoc)
  then show ?thesis by simp
qed

lemma length_addSamples_buffer:
  "length (buffer (addSamples st now samples sequence isPLC)) =
     min (maxBufferSize st) (length (buffer st) + length samples)"
  by (simp add: addSamples_buffer)

lemma length_readFloat_output:
  assumes "frames \<le> length output"
  shows "length (fst (snd (readFloat st output frames))) = length output"
proof (cases "\<not> playbackStarted st \<and> length (buffer st) < minBufferSize st")
  case True
  then show ?thesis by (simp add: readFloat_silent)
next
  case False
  then have ready: "playbackStarted st \<or> minBufferSize st \<le> length (buffer st)" by auto
  show ?thesis
  proof (cases "buffer st = []")
    case True
    with ready show ?thesis by (simp add: readFloat_underrun)
  next
    case False
    with ready assms show ?thesis by (simp add: readFloat_normal Let_def)
  qed
qed

lemma readFloat_zero_branches:
  assumes "frames \<le> length output"
    and "(\<not> playbackStarted st \<and> length (buffer st) < minBufferSize st) \<or> buffer st = []"
  shows "take frames (fst (snd (readFloat st output frames))) = replicate frames 0"
proof (cases "\<not> playbackStarted st \<and> length (buffer st) < minBufferSize st")
  case True
  then show ?thesis using assms(1) by (simp add: readFloat_silent take_fill_zero)
next
  case False
  then have ready: "playbackStarted st \<or> minBufferSize st \<le> length (buffer st)" by auto
  from False assms(2) have "buffer st = []" by auto
  with ready show ?thesis using assms(1) by (simp add: readFloat_underrun take_fill_zero)
qed

lemma readFloat_out_indep:
  assumes "frames \<le> length output" and "frames \<le> length output'"
  shows "take frames (fst (snd (readFloat st output frames)))
         = take frames (fst (snd (readFloat st output' frames)))"
proof (cases "(\<not> playbackStarted st \<and> length (buffer st) < minBufferSize st) \<or> buffer st = []")
  case True
  then show ?thesis using assms by (simp only: readFloat_zero_branches)
next
  case False
  then have ready: "playbackStarted st \<or> minBufferSize st \<le> length (buffer st)"
    and ne: "buffer st \<noteq> []" by auto
  show ?thesis
  proof (rule nth_equalityI)
    show "length (take frames (fst (snd (readFloat st output frames))))
          = length (take frames (fst (snd (readFloat st output' frames))))"
      using assms by (simp add: length_readFloat_output)
  next
    fix i assume "i < length (take frames (fst (snd (readFloat st output frames))))"
    then have i: "i < frames" by simp
    then show "take frames (fst (snd (readFloat st output frames))) ! i
               = take frames (fst (snd (readFloat st output' frames))) ! i"
      by (simp only: nth_take readFloat_out_nth [OF ready ne assms(1) i]
          readFloat_out_nth [OF ready ne assms(2) i])
  qed
qed

lemma readFloat_zero_tail:
  assumes "frames \<le> length output" and "fst (readFloat st output frames) \<le> i" and "i < frames"
  shows "fst (snd (readFloat st output frames)) ! i = 0"
proof (cases "(\<not> playbackStarted st \<and> length (buffer st) < minBufferSize st) \<or> buffer st = []")
  case True
  have "fst (snd (readFloat st output frames)) ! i
        = take frames (fst (snd (readFloat st output frames))) ! i"
    using assms(3) by simp
  also have "\<dots> = 0"
    using assms(3) by (simp only: readFloat_zero_branches [OF assms(1) True] nth_replicate)
  finally show ?thesis .
next
  case False
  then have ready: "playbackStarted st \<or> minBufferSize st \<le> length (buffer st)"
    and ne: "buffer st \<noteq> []" by auto
  from assms(2) False have le: "min frames (length (buffer st)) \<le> i"
    by (simp add: readFloat_ret [OF assms(1)] split: if_splits)
  then have "\<not> i < min frames (length (buffer st))"
    and "\<not> i < min (min frames (length (buffer st))) (fadeLength (crossfade st))"
    by linarith+
  then have c1: "(i < min frames (length (buffer st))) = False"
    and c2: "(i < min (min frames (length (buffer st))) (fadeLength (crossfade st))) = False"
    by blast+
  show ?thesis
    by (simp only: readFloat_out_nth [OF ready ne assms(1,3)] Let_def c1 c2 simp_thms if_False)
qed

lemma create_fields:
  "uab_lastSequence (UserAudioBuffer_create sinf uid cfg now) = -1"
  "sequenceIncrement (UserAudioBuffer_create sinf uid cfg now) = 1"
  "sequenceGaps (stats (UserAudioBuffer_create sinf uid cfg now)) = 0"
  by (simp_all add: UserAudioBuffer_create_def Stats_init_def)

section \<open>Claims about UserAudioBuffer\<close>

text \<open>
  C3 (as amended). With the default configuration (\<open>minBufferSize = 2880\<close> samples, fade
  length 480) a fresh buffer that received a single packet of 480 samples is not ready: the
  first \<^verbatim>\<open>readFloat(480)\<close> returns 0, zero-fills its 480 outputs and leaves the state as it
  was, so no fade-in is applied. The fade-in is applied by the first read after the fresh
  buffer has received at least 2880 samples (and at most the 9600 it holds), in any number
  of \<^verbatim>\<open>addSamples\<close> calls: a read of \<open>frames\<close> values, no more than were received, returns
  \<open>frames\<close>, counts one fade-in and starts playback; value \<open>i < 480\<close> is the
  single-precision product of received sample \<open>i\<close> (divided by 32768) and the gain
  \<open>sinf (float i * mul)\<close>, entry \<open>i\<close> of the table the constructor builds, with
  \<open>mul = float \<pi> / (2 * 480) = 878453 / 2 ^ 28\<close> in single precision; a value from position
  480 on is the received sample. The gains are non-decreasing in \<open>i\<close> whenever the library's
  sine is non-decreasing on \<open>[0, \<pi>/2]\<close>.
\<close>

theorem C3_fade_in_needs_min_buffer:
  "(length samples = 480 \<and> 480 \<le> length out \<longrightarrow>
      readFloat (addSamples (UserAudioBuffer_create sinf uid UabConfig_default now0)
                   now samples 0 isPLC) out 480
        = (0, fill out 0 480 0,
           addSamples (UserAudioBuffer_create sinf uid UabConfig_default now0)
             now samples 0 isPLC)
      \<and> take 480 (fill out 0 480 0) = replicate 480 0
      \<and> fadeIns (stats (addSamples (UserAudioBuffer_create sinf uid UabConfig_default now0)
                           now samples 0 isPLC)) = 0)
   \<and> (2880 \<le> length (samples_of calls) \<and> length (samples_of calls) \<le> 9600
        \<and> frames \<le> length (samples_of calls) \<and> frames \<le> length out \<longrightarrow>
        fst (readFloat (addSamples_calls
               (UserAudioBuffer_create sinf uid UabConfig_default now0) calls) out frames)
          = frames
        \<and> (\<forall>i<frames.
              fst (snd (readFloat (addSamples_calls
                  (UserAudioBuffer_create sinf uid UabConfig_default now0) calls) out frames)) ! i
              = (if i < 480
                 then fmul (real_of_int (sint (samples_of calls ! i)) / 32768)
                        (sinf (fmul (real i) (fdiv pi_f 960)))
                 else real_of_int (sint (samples_of calls ! i)) / 32768))
        \<and> fadeIns (stats (snd (snd (readFloat (addSamples_calls
               (UserAudioBuffer_create sinf uid UabConfig_default now0) calls) out frames))))
            = 1
        \<and> playbackStarted (snd (snd (readFloat (addSamples_calls
               (UserAudioBuffer_create sinf uid UabConfig_default now0) calls) out frames))))
   \<and> minBufferSize (UserAudioBuffer_create sinf uid UabConfig_default now0) = 2880
   \<and> fadeLength (crossfade (UserAudioBuffer_create sinf uid UabConfig_default now0)) = 480
   \<and> (\<forall>i<480. fadeIn (crossfade (UserAudioBuffer_create sinf uid UabConfig_default now0)) ! i
                  = sinf (fmul (real i) (fdiv pi_f 960)))
   \<and> fdiv pi_f 960 = 878453 / 268435456
   \<and> ((\<forall>x y. 0 \<le> x \<and> x \<le> y \<and> y \<le> pi / 2 \<longrightarrow> sinf x \<le> sinf y) \<longrightarrow>
        (\<forall>i j. i \<le> j \<and> j < 480 \<longrightarrow>
           sinf (fmul (real i) (fdiv pi_f 960)) \<le> sinf (fmul (real j) (fdiv pi_f 960))))"
proof (intro conjI impI allI)
  let ?S = "addSamples (UserAudioBuffer_create sinf uid UabConfig_default now0) now samples 0 isPLC"
  assume a: "length samples = 480 \<and> 480 \<le> length out"
  then have "\<not> playbackStarted ?S" "length (buffer ?S) < minBufferSize ?S"
    by (simp_all add: addSamples_other length_addSamples_buffer create_default create_state)
  then show "readFloat ?S out 480 = (0, fill out 0 480 0, ?S)"
    by (rule readFloat_silent)
  show "take 480 (fill out 0 480 0) = replicate 480 0"
    using a by (simp add: take_fill_zero)
  show "fadeIns (stats ?S) = 0"
    by (simp add: addSamples_other create_state)
next
  define S0 where "S0 = UserAudioBuffer_create sinf uid UabConfig_default now0"
  define S where "S = addSamples_calls S0 calls"
  define B where "B = samples_of calls"
  assume b: "2880 \<le> length (samples_of calls) \<and> length (samples_of calls) \<le> 9600
        \<and> frames \<le> length (samples_of calls) \<and> frames \<le> length out"
  have buf: "buffer S = map (\<lambda>s. real_of_int (sint s) / 32768) B"
    unfolding S_def B_def using b
    by (subst addSamples_calls_buffer) (simp_all add: S0_def create_default create_state)
  have fields: "\<not> playbackStarted S" "needsFadeIn S" "\<not> needsFadeOut S" "minBufferSize S = 2880"
    "crossfade S = Crossfade_create sinf 480" "fadeIns (stats S) = 0"
    by (simp_all add: S_def S0_def addSamples_calls_other create_default create_state)
  have len: "length (buffer S) = length B"
    by (simp add: buf)
  have ready: "playbackStarted S \<or> minBufferSize S \<le> length (buffer S)"
    using b by (simp add: fields len B_def)
  have ne: "buffer S \<noteq> []"
    using b len by (auto simp: B_def)
  have fo: "frames \<le> length out" and fb: "frames \<le> length B"
    using b by (simp_all add: B_def)
  show "fst (readFloat S out frames) = frames"
    using fb by (simp add: readFloat_normal [OF ready ne fo] Let_def len)
  show "fadeIns (stats (snd (snd (readFloat S out frames)))) = 1"
    by (simp add: readFloat_normal [OF ready ne fo] Let_def fields)
  show "playbackStarted (snd (snd (readFloat S out frames)))"
    by (simp add: readFloat_normal [OF ready ne fo] Let_def)
  fix i assume i: "i < frames"
  then have iB: "i < length B" using fb by simp
  have n: "min frames (length (buffer S)) = frames"
    using fb by (simp add: len)
  have x0: "buffer S ! i = real_of_int (sint (B ! i)) / 32768"
    using iB by (simp add: buf)
  have "fst (snd (readFloat S out frames)) ! i
      = (if i < min frames 480 then fmul (buffer S ! i) (fadeIn (Crossfade_create sinf 480) ! i)
         else buffer S ! i)"
    using i by (simp add: readFloat_out_nth [OF ready ne fo i] Let_def n fields
        Crossfade_create_fields)
  also have "\<dots> = (if i < 480
                 then fmul (real_of_int (sint (B ! i)) / 32768)
                        (sinf (fmul (real i) (fdiv pi_f 960)))
                 else real_of_int (sint (B ! i)) / 32768)"
    using i by (simp add: x0 default_gain)
  finally show "fst (snd (readFloat S out frames)) ! i
      = (if i < 480
                 then fmul (real_of_int (sint (B ! i)) / 32768)
                        (sinf (fmul (real i) (fdiv pi_f 960)))
                 else real_of_int (sint (B ! i)) / 32768)" .
next
  show "minBufferSize (UserAudioBuffer_create sinf uid UabConfig_default now0) = 2880"
    by (simp add: create_default)
  show "fadeLength (crossfade (UserAudioBuffer_create sinf uid UabConfig_default now0)) = 480"
    by (simp add: create_default Crossfade_create_fields)
  show "fdiv pi_f 960 = 878453 / 268435456"
    by (rule mul_default)
next
  fix i :: nat assume "i < 480"
  then show "fadeIn (crossfade (UserAudioBuffer_create sinf uid UabConfig_default now0)) ! i
                  = sinf (fmul (real i) (fdiv pi_f 960))"
    by (simp add: create_default default_gain)
next
  fix i j :: nat
  assume mono: "\<forall>x y. 0 \<le> x \<and> x \<le> y \<and> y \<le> pi / 2 \<longrightarrow> sinf x \<le> sinf y"
    and ij: "i \<le> j \<and> j < 480"
  from ij have "i \<le> j" "j < 480" by simp_all
  from default_arg_range [OF this] mono
  show "sinf (fmul (real i) (fdiv pi_f 960)) \<le> sinf (fmul (real j) (fdiv pi_f 960))"
    by blast
qed

text \<open>
  Witness for C3, with the correctly rounded sine as the library's: one packet of 480
  samples (not ready), and six packets of 480 samples of value 0.5 (2880 samples, ready)
  read with \<open>frames = 480\<close>. The first value read is 0 (gain 0), the last is the product of
  0.5 and the last gain, and the first gain is not above the last.
\<close>

theorem C3_fade_in_needs_min_buffer_witness:
  "fst (readFloat (addSamples (UserAudioBuffer_create example_sinf 7 UabConfig_default 0) 0
             (replicate 480 16384) 0 False) (replicate 480 1) 480) = 0
   \<and> length (samples_of example_calls) = 2880
   \<and> fst (readFloat (addSamples_calls (UserAudioBuffer_create example_sinf 7 UabConfig_default 0)
             example_calls) (replicate 480 1) 480) = 480
   \<and> fst (snd (readFloat (addSamples_calls
             (UserAudioBuffer_create example_sinf 7 UabConfig_default 0) example_calls)
             (replicate 480 1) 480)) ! 0 = 0
   \<and> fst (snd (readFloat (addSamples_calls
             (UserAudioBuffer_create example_sinf 7 UabConfig_default 0) example_calls)
             (replicate 480 1) 480)) ! 479
       = fmul (1 / 2) (example_sinf (13149343 / 8388608))
   \<and> fadeIns (stats (snd (snd (readFloat (addSamples_calls
             (UserAudioBuffer_create example_sinf 7 UabConfig_default 0) example_calls)
             (replicate 480 1) 480)))) = 1
   \<and> example_sinf (fmul (real (0::nat)) (fdiv pi_f 960))
       \<le> example_sinf (fmul (real (479::nat)) (fdiv pi_f 960))"
proof -
  define S where "S = addSamples_calls
    (UserAudioBuffer_create example_sinf 7 UabConfig_default 0) example_calls"
  define R where "R = readFloat S (replicate 480 1) 480"
  define S1 where "S1 = addSamples (UserAudioBuffer_create example_sinf 7 UabConfig_default 0) 0
             (replicate 480 16384) 0 False"
  note inst = C3_fade_in_needs_min_buffer
    [of "replicate 480 16384" "replicate 480 1" example_sinf 7 0 0 False example_calls 480,
     folded S_def S1_def, folded R_def]
  have len: "length (samples_of example_calls) = 2880"
    by (simp add: example_samples)
  have pre1: "length (replicate 480 (16384 :: 16 word)) = 480
      \<and> (480::nat) \<le> length (replicate 480 (1::real))"
    by simp
  have pre2: "2880 \<le> length (samples_of example_calls)
      \<and> length (samples_of example_calls) \<le> 9600
      \<and> 480 \<le> length (samples_of example_calls)
      \<and> (480::nat) \<le> length (replicate 480 (1::real))"
    by (simp add: len)
  have mono: "\<forall>x y. 0 \<le> x \<and> x \<le> y \<and> y \<le> pi / 2 \<longrightarrow> example_sinf x \<le> example_sinf y"
    using example_sinf_mono by blast
  from inst pre1 have "readFloat S1 (replicate 480 1) 480 = (0, fill (replicate 480 1) 0 480 0, S1)"
    by blast
  then have one: "fst (readFloat S1 (replicate 480 1) 480) = 0"
    by simp
  from inst pre2 have ret: "fst R = 480"
    and val: "\<forall>i<480. fst (snd R) ! i
              = (if i < 480
                 then fmul (real_of_int (sint (samples_of example_calls ! i)) / 32768)
                        (example_sinf (fmul (real i) (fdiv pi_f 960)))
                 else real_of_int (sint (samples_of example_calls ! i)) / 32768)"
    and cnt: "fadeIns (stats (snd (snd R))) = 1"
    by blast+
  from inst mono have gains: "\<forall>i j. i \<le> j \<and> j < 480 \<longrightarrow>
      example_sinf (fmul (real i) (fdiv pi_f 960)) \<le> example_sinf (fmul (real j) (fdiv pi_f 960))"
    by blast
  have half: "real_of_int (sint (replicate 2880 (16384 :: 16 word) ! i)) / 32768 = 1 / 2"
    if "i < 2880" for i
    using that by simp
  have "fst (snd R) ! 0 = fmul (1 / 2) (example_sinf (fmul (real (0::nat)) (fdiv pi_f 960)))"
    using val [rule_format, of 0] half [of 0] by (simp only: example_samples) simp
  then have v0: "fst (snd R) ! 0 = 0"
    by (simp add: fmul_def example_sinf_def float_round_zero)
  have "fst (snd R) ! 479 = fmul (1 / 2) (example_sinf (fmul (real (479::nat)) (fdiv pi_f 960)))"
    using val [rule_format, of 479] half [of 479] by (simp only: example_samples) simp
  then have v479: "fst (snd R) ! 479 = fmul (1 / 2) (example_sinf (13149343 / 8388608))"
    unfolding mul_default arg_479 .
  have g: "example_sinf (fmul (real (0::nat)) (fdiv pi_f 960))
       \<le> example_sinf (fmul (real (479::nat)) (fdiv pi_f 960))"
    using gains [rule_format, of 0 479] by simp
  show ?thesis
    unfolding S_def [symmetric] S1_def [symmetric] R_def [symmetric]
    using one len ret v0 v479 cnt g by blast
qed

text \<open>
  C3 as stated fails: after a single packet of 480 samples of value 16384 (0.5 as float) the
  first read returns 0 frames, all 480 outputs are 0 although the buffered samples are not,
  no fade-in is counted and \<open>needsFadeIn\<close> is still pending.
\<close>

theorem C3_single_packet_counterexample:
  "fst (readFloat (addSamples (UserAudioBuffer_create example_sinf 7 UabConfig_default 0) 0
          (replicate 480 16384) 0 False) (replicate 480 1) 480) = 0
   \<and> take 480 (fst (snd (readFloat (addSamples (UserAudioBuffer_create example_sinf 7 UabConfig_default 0) 0
          (replicate 480 16384) 0 False) (replicate 480 1) 480))) = replicate 480 0
   \<and> fadeIns (stats (snd (snd (readFloat (addSamples
          (UserAudioBuffer_create example_sinf 7 UabConfig_default 0) 0
          (replicate 480 16384) 0 False) (replicate 480 1) 480)))) = 0
   \<and> needsFadeIn (snd (snd (readFloat (addSamples
          (UserAudioBuffer_create example_sinf 7 UabConfig_default 0) 0
          (replicate 480 16384) 0 False) (replicate 480 1) 480)))
   \<and> \<not> playbackStarted (snd (snd (readFloat (addSamples
          (UserAudioBuffer_create example_sinf 7 UabConfig_default 0) 0
          (replicate 480 16384) 0 False) (replicate 480 1) 480)))
   \<and> hd (buffer (addSamples (UserAudioBuffer_create example_sinf 7 UabConfig_default 0) 0
          (replicate 480 16384) 0 False)) = 1 / 2"
proof -
  let ?S = "addSamples (UserAudioBuffer_create example_sinf 7 UabConfig_default 0) 0
          (replicate 480 16384) 0 False"
  have "\<not> playbackStarted ?S" "length (buffer ?S) < minBufferSize ?S"
    by (simp_all add: addSamples_other length_addSamples_buffer create_default create_state)
  then have "readFloat ?S (replicate 480 1) 480 = (0, fill (replicate 480 1) 0 480 0, ?S)"
    by (rule readFloat_silent)
  moreover have "take 480 (fill (replicate 480 (1::real)) 0 480 0) = replicate 480 0"
    by (rule take_fill_zero) simp
  moreover have "hd (buffer ?S) = 1 / 2"
    by (simp add: addSamples_buffer create_default create_state hd_map)
  ultimately show ?thesis
    by (simp add: addSamples_other create_state)
qed

text \<open>
  C4 (as amended). After every \<^verbatim>\<open>addSamples\<close> the buffer holds at most \<open>maxBufferSize\<close>
  samples, \<^verbatim>\<open>readFloat\<close> keeps that bound (a fresh buffer is empty, and the default bound
  is 9600 samples), and \<^verbatim>\<open>addSamples\<close> increments \<open>bufferOverruns\<close> once per evicted
  sample: by the number of samples offered minus the number kept.
\<close>

theorem C4_buffer_bound:
  "length (buffer (addSamples st now samples sequence isPLC))
      \<le> maxBufferSize (addSamples st now samples sequence isPLC)
   \<and> maxBufferSize (addSamples st now samples sequence isPLC) = maxBufferSize st
   \<and> (frames \<le> length output \<and> length (buffer st) \<le> maxBufferSize st \<longrightarrow>
        length (buffer (snd (snd (readFloat st output frames))))
          \<le> maxBufferSize (snd (snd (readFloat st output frames)))
        \<and> maxBufferSize (snd (snd (readFloat st output frames))) = maxBufferSize st)
   \<and> bufferOverruns (stats (addSamples st now samples sequence isPLC)) =
        bufferOverruns (stats st)
        + of_nat (length (buffer st) + length samples
                  - length (buffer (addSamples st now samples sequence isPLC)))
   \<and> length (buffer (UserAudioBuffer_create sinf uid cfg now0)) = 0
   \<and> maxBufferSize (UserAudioBuffer_create sinf uid UabConfig_default now0) = 9600"
proof -
  have "length (buffer st) + length samples
          - min (maxBufferSize st) (length (buffer st) + length samples)
        = length (buffer st) + length samples - maxBufferSize st"
    by simp
  then show ?thesis
    by (auto simp add: length_addSamples_buffer addSamples_other addSamples_bufferOverruns
        readFloat_buffer readFloat_maxBufferSize create_default create_state)
qed

text \<open>Witness for C4: a read of 480 frames from a buffer that holds six packets.\<close>

theorem C4_buffer_bound_witness:
  "(480::nat) \<le> length (replicate 480 (1::real))
   \<and> length (buffer (feed_sequences (UserAudioBuffer_create example_sinf 7 UabConfig_default 0)
         [0, 1, 2, 3, 4, 5])) \<le> 9600
   \<and> length (buffer (snd (snd (readFloat
         (feed_sequences (UserAudioBuffer_create example_sinf 7 UabConfig_default 0) [0, 1, 2, 3, 4, 5])
         (replicate 480 1) 480)))) \<le> 9600"
  using C4_buffer_bound
    [of "feed_sequences (UserAudioBuffer_create example_sinf 7 UabConfig_default 0) [0, 1, 2, 3, 4, 5]"
        0 "[]" 0 False 480 "replicate 480 1" example_sinf 7 UabConfig_default 0]
  by (simp add: feed_sequences_def length_addSamples_buffer addSamples_other create_default
      create_state)

text \<open>
  C4 as stated fails in its second half: with the default configuration twenty packets of
  480 samples fill the buffer exactly (9600 samples, no overrun); the twenty-first evicts
  one packet's worth of samples and \<open>bufferOverruns\<close> becomes 480, not 1.
\<close>

theorem C4_overruns_per_sample_counterexample:
  "length (buffer (feed_sequences (UserAudioBuffer_create example_sinf 7 UabConfig_default 0)
       [0, 1, 2, 3, 4, 5, 6, 7, 8, 9, 10, 11, 12, 13, 14, 15, 16, 17, 18, 19])) = 9600
   \<and> bufferOverruns (stats (feed_sequences (UserAudioBuffer_create example_sinf 7 UabConfig_default 0)
       [0, 1, 2, 3, 4, 5, 6, 7, 8, 9, 10, 11, 12, 13, 14, 15, 16, 17, 18, 19])) = 0
   \<and> length (buffer (feed_sequences (UserAudioBuffer_create example_sinf 7 UabConfig_default 0)
       [0, 1, 2, 3, 4, 5, 6, 7, 8, 9, 10, 11, 12, 13, 14, 15, 16, 17, 18, 19, 20])) = 9600
   \<and> bufferOverruns (stats (feed_sequences (UserAudioBuffer_create example_sinf 7 UabConfig_default 0)
       [0, 1, 2, 3, 4, 5, 6, 7, 8, 9, 10, 11, 12, 13, 14, 15, 16, 17, 18, 19, 20])) = 480"
  by (simp add: feed_sequences_def length_addSamples_buffer addSamples_other
      addSamples_bufferOverruns create_default create_state)

text \<open>
  C10. Every \<^verbatim>\<open>readFloat(output, frames)\<close> on a buffer of at least \<open>frames\<close> entries writes
  all of the first \<open>frames\<close> entries: their values after the call do not depend on what the
  caller's buffer held before; in the not-started and underrun branches they are all 0, and
  in every branch the entries from the returned count up to \<open>frames\<close> are 0.
\<close>

theorem C10_readFloat_writes_all_frames:
  "frames \<le> length output \<and> frames \<le> length output' \<longrightarrow>
     take frames (fst (snd (readFloat st output frames)))
       = take frames (fst (snd (readFloat st output' frames)))
     \<and> ((\<not> playbackStarted st \<and> length (buffer st) < minBufferSize st) \<or> buffer st = [] \<longrightarrow>
          take frames (fst (snd (readFloat st output frames))) = replicate frames 0)
     \<and> (\<forall>i. fst (readFloat st output frames) \<le> i \<and> i < frames \<longrightarrow>
          fst (snd (readFloat st output frames)) ! i = 0)
     \<and> length (fst (snd (readFloat st output frames))) = length output"
  using readFloat_out_indep [of frames "output" output' st]
    readFloat_zero_branches [of frames "output" st]
    readFloat_zero_tail [of frames "output" st]
    length_readFloat_output [of frames "output" st]
  by blast

text \<open>
  Witness for C10: two output buffers with different previous contents give the same 480
  values.
\<close>

theorem C10_readFloat_writes_all_frames_witness:
  "(480::nat) \<le> length (replicate 480 (1::real)) \<and> (480::nat) \<le> length (replicate 480 (2::real))
   \<and> take 480 (fst (snd (readFloat
         (feed_sequences (UserAudioBuffer_create example_sinf 7 UabConfig_default 0) [0, 1, 2, 3, 4, 5])
         (replicate 480 1) 480)))
     = take 480 (fst (snd (readFloat
         (feed_sequences (UserAudioBuffer_create example_sinf 7 UabConfig_default 0) [0, 1, 2, 3, 4, 5])
         (replicate 480 2) 480)))
   \<and> length (fst (snd (readFloat
         (feed_sequences (UserAudioBuffer_create example_sinf 7 UabConfig_default 0) [0, 1, 2, 3, 4, 5])
         (replicate 480 1) 480))) = 480"
  using C10_readFloat_writes_all_frames
    [of 480 "replicate 480 1" "replicate 480 2"
        "feed_sequences (UserAudioBuffer_create example_sinf 7 UabConfig_default 0) [0, 1, 2, 3, 4, 5]"]
  by simp

text \<open>
  C5 (as amended). In \<^verbatim>\<open>addSamples\<close>, for every call after the first packet
  (\<open>uab_lastSequence \<ge> 0\<close>): \<open>sequenceGaps\<close> is incremented exactly when the incoming
  sequence lies more than \<open>sequenceIncrement\<close> ahead of the last one (a forward gap; a
  sequence that differs from the expected one by being late or repeated is not counted),
  and a gap strictly between 1 and 100 is adopted as the new \<open>sequenceIncrement\<close>. Feeding
  the sequences 0, 1, 2, 4 to a fresh buffer yields \<open>sequenceGaps = 1\<close> and last sequence 4.
\<close>

theorem C5_forward_gap_counted:
  "(0 \<le> uab_lastSequence st \<longrightarrow>
      sequenceGaps (stats (addSamples st now samples sequence isPLC)) =
        (if sequence - uab_lastSequence st > sequenceIncrement st
         then sequenceGaps (stats st) + 1 else sequenceGaps (stats st))
      \<and> (1 < sequence - uab_lastSequence st \<and> sequence - uab_lastSequence st < 100 \<longrightarrow>
           sequenceIncrement (addSamples st now samples sequence isPLC) =
             sequence - uab_lastSequence st))
   \<and> sequenceGaps (stats (feed_sequences (UserAudioBuffer_create sinf uid UabConfig_default now0)
                              [0, 1, 2, 4])) = 1
   \<and> uab_lastSequence (feed_sequences (UserAudioBuffer_create sinf uid UabConfig_default now0)
                          [0, 1, 2, 4]) = 4
   \<and> lastSequence (stats (feed_sequences (UserAudioBuffer_create sinf uid UabConfig_default now0)
                              [0, 1, 2, 4])) = 4"
  by (simp add: feed_sequences_def addSamples_sequenceGaps addSamples_sequenceIncrement
      addSamples_lastSequence create_fields)

text \<open>Witness for C5: the sequences 0, 1, 2 followed by sequence 4.\<close>

theorem C5_forward_gap_counted_witness:
  "0 \<le> uab_lastSequence (feed_sequences (UserAudioBuffer_create example_sinf 7 UabConfig_default 0) [0, 1, 2])
   \<and> sequenceGaps (stats (addSamples
         (feed_sequences (UserAudioBuffer_create example_sinf 7 UabConfig_default 0) [0, 1, 2])
         0 (replicate 480 0) 4 False)) = 1
   \<and> sequenceIncrement (addSamples
         (feed_sequences (UserAudioBuffer_create example_sinf 7 UabConfig_default 0) [0, 1, 2])
         0 (replicate 480 0) 4 False) = 2"
  using C5_forward_gap_counted
    [of "feed_sequences (UserAudioBuffer_create example_sinf 7 UabConfig_default 0) [0, 1, 2]"
        0 "replicate 480 0" 4 False example_sinf 7 0]
  by (simp add: feed_sequences_def addSamples_sequenceGaps addSamples_sequenceIncrement
      addSamples_lastSequence create_fields)

text \<open>
  C5 as stated fails: after the sequences 0, 1, 2 a packet with sequence 1 differs from the
  expected sequence 3, and \<open>sequenceGaps\<close> stays 0.
\<close>

theorem C5_late_packet_counterexample:
  "0 \<le> uab_lastSequence (feed_sequences (UserAudioBuffer_create example_sinf 7 UabConfig_default 0) [0, 1, 2])
   \<and> (1::int) \<noteq>
       uab_lastSequence (feed_sequences (UserAudioBuffer_create example_sinf 7 UabConfig_default 0) [0, 1, 2])
       + sequenceIncrement (feed_sequences (UserAudioBuffer_create example_sinf 7 UabConfig_default 0) [0, 1, 2])
   \<and> sequenceGaps (stats (feed_sequences (UserAudioBuffer_create example_sinf 7 UabConfig_default 0)
         [0, 1, 2])) = 0
   \<and> sequenceGaps (stats (addSamples
         (feed_sequences (UserAudioBuffer_create example_sinf 7 UabConfig_default 0) [0, 1, 2])
         0 (replicate 480 0) 1 False)) = 0"
  by (simp add: feed_sequences_def addSamples_sequenceGaps addSamples_sequenceIncrement
      addSamples_lastSequence create_fields)

section \<open>FloatMixer: lemmas and claims\<close>

lemma length_for_update:
  "length (fold (\<lambda>i s. s[i := f i s]) js s) = length s"
  by (induction js arbitrary: s) auto

lemma for_update_nth:
  "j < length s \<Longrightarrow>
   fold (\<lambda>i s. s[i := f i (s ! i)]) [0..<m] s ! j = (if j < m then f j (s ! j) else s ! j)"
proof (induction m arbitrary: j)
  case 0
  then show ?case by simp
next
  case (Suc m)
  let ?t = "fold (\<lambda>i s. s[i := f i (s ! i)]) [0..<m] s"
  have len: "length ?t = length s"
    using length_for_update [of "\<lambda>i s. f i (s ! i)"] by simp
  have step: "fold (\<lambda>i s. s[i := f i (s ! i)]) [0..<Suc m] s = ?t[m := f m (?t ! m)]"
    by simp
  show ?case
  proof (cases "j = m")
    case True
    with Suc.prems have "m < length s" by simp
    then have "?t ! m = s ! m" using Suc.IH [of m] by simp
    with True Suc.prems show ?thesis
      unfolding step by (simp add: len)
  next
    case False
    with Suc.prems Suc.IH [of j] show ?thesis
      unfolding step by (auto simp: len)
  qed
qed

lemma length_add [simp]: "length (mixBuffer (add m samples frames)) = length (mixBuffer m)"
  using length_for_update [of "\<lambda>i b. fadd (b ! i) (samples ! i)"]
  by (simp add: add_def Let_def)

lemma add_nth:
  "j < length (mixBuffer m) \<Longrightarrow>
   mixBuffer (add m samples frames) ! j =
     (if j < min frames (fm_frameSize m) then fadd (mixBuffer m ! j) (samples ! j)
      else mixBuffer m ! j)"
  using for_update_nth [of j "mixBuffer m" "\<lambda>i x. fadd x (samples ! i)" "min frames (fm_frameSize m)"]
  by (simp add: add_def Let_def)

lemma add_frameSize [simp]: "fm_frameSize (add m samples frames) = fm_frameSize m"
  by (simp add: add_def Let_def)

lemma clear_fields [simp]:
  "fm_frameSize (clear m) = fm_frameSize m"
  "length (mixBuffer (clear m)) = length (mixBuffer m)"
  by (simp_all add: clear_def)

lemma clear_nth: "j < length (mixBuffer m) \<Longrightarrow> mixBuffer (clear m) ! j = 0"
  by (simp add: clear_def nth_fill)

lemma length_getMixed [simp]: "length (getMixed m output frames) = length output"
  unfolding getMixed_def Let_def
  using length_for_update
    [of "\<lambda>i out. float_to_int16 (fmul (if (if 1 < mixBuffer m ! i then 1 else mixBuffer m ! i) < - 1
           then - 1 else if 1 < mixBuffer m ! i then 1 else mixBuffer m ! i) 32767)"]
  by simp

lemma getMixed_nth:
  "j < length output \<Longrightarrow>
   getMixed m output frames ! j =
     (if j < min frames (fm_frameSize m)
      then float_to_int16 (fmul (max (-1) (min 1 (mixBuffer m ! j))) 32767)
      else output ! j)"
proof -
  assume j: "j < length output"
  have clamp: "(if (if 1 < x then 1 else x) < - 1 then - 1 else if 1 < x then 1 else x)
               = max (-1) (min 1 x)" for x :: real
    by (auto simp: max_def min_def)
  show ?thesis
    unfolding getMixed_def Let_def clamp
    using for_update_nth [OF j,
        of "\<lambda>i x. float_to_int16 (fmul (max (-1) (min 1 (mixBuffer m ! i))) 32767)"
           "min frames (fm_frameSize m)"]
    by simp
qed

lemma sint_float_to_int16:
  assumes "- 32767 \<le> x" "x \<le> 32767"
  shows "sint (float_to_int16 x) = (if 0 \<le> x then \<lfloor>x\<rfloor> else \<lceil>x\<rceil>)"
proof -
  let ?z = "if 0 \<le> x then \<lfloor>x\<rfloor> else \<lceil>x\<rceil>"
  have "- 32767 \<le> ?z" "?z \<le> 32767"
    using assms by (auto simp: le_floor_iff floor_le_iff ceiling_le_iff le_ceiling_iff)
  then have "sint (word_of_int ?z :: 16 word) = ?z"
    by (simp only: sint_sbintrunc' signed_take_bit_int_eq_self_iff) simp
  then show ?thesis by (simp add: float_to_int16_def)
qed

lemma create_mixer_fields [simp]:
  "fm_frameSize (FloatMixer_create F) = F"
  "length (mixBuffer (FloatMixer_create F)) = F"
  by (simp_all add: FloatMixer_create_def)

text \<open>Values that single precision represents exactly.\<close>

lemma float_round_exact:
  "float_round 1 = 1"
  "float_round 2 = 2"
  "float_round 32767 = 32767"
  "float_round (1 / 2) = 1 / 2"
  "float_round (32767 / 2) = 32767 / 2"
  "float_round (7508197 / 8388608) = 7508197 / 8388608"
  using float_round_of_int [of 1] float_round_of_int [of 2] float_round_of_int [of 32767]
    float_round_representable [of 1 "- 1"] float_round_representable [of 32767 "- 1"]
    float_round_representable [of 7508197 "- 23"]
  by (simp_all add: powr_minus field_simps)

text \<open>
  A product that is not exact: \<open>7508197 / 2 ^ 23 * 32767\<close> lies between 29327 and 29328,
  and the nearest single-precision value is 29328.
\<close>

lemma fmul_rounds_up: "fmul (7508197 / 8388608) 32767 = 29328"
proof -
  have "float_round (7508197 / 8388608 * 32767) = (1 / 2 ^ 9) * of_int 15015936"
    by (rule float_round_eval [where e = 14])
      (simp_all add: powr_minus round_half_even_def field_simps)
  then show ?thesis
    unfolding fmul_def by simp
qed

lemma clamp_times_bounds:
  "- 32767 \<le> fmul (max (-1) (min 1 x)) 32767" "fmul (max (-1) (min 1 x)) 32767 \<le> 32767"
proof -
  have lo: "- 32767 \<le> max (-1) (min 1 x) * 32767" and hi: "max (-1) (min 1 x) * 32767 \<le> 32767"
    by (auto simp: max_def min_def)
  have "float_round (- 32767) \<le> float_round (max (-1) (min 1 x) * 32767)"
    using lo by (rule float_round_mono)
  then show "- 32767 \<le> fmul (max (-1) (min 1 x)) 32767"
    by (simp add: fmul_def float_round_minus float_round_exact)
  have "float_round (max (-1) (min 1 x) * 32767) \<le> float_round 32767"
    using hi by (rule float_round_mono)
  then show "fmul (max (-1) (min 1 x)) 32767 \<le> 32767"
    by (simp add: fmul_def float_round_exact)
qed

text \<open>
  C6 (as amended). \<^verbatim>\<open>getMixed\<close> clamps every accumulated value to \<open>[-1, 1]\<close>, multiplies it by
  32767 in single precision and converts that product to \<^verbatim>\<open>int16_t\<close> by truncation towards
  zero (the \<^verbatim>\<open>static_cast\<close>), not by rounding; the result lies between -32767 and 32767.
  After \<^verbatim>\<open>clear\<close> and two \<^verbatim>\<open>add\<close> calls with buffers equal to 1.0 everywhere, \<^verbatim>\<open>getMixed\<close> yields
  32767 at every position.
\<close>

theorem C6_getMixed_clamps_and_truncates:
  "(j < min frames (fm_frameSize m) \<and> j < length output \<longrightarrow>
      getMixed m output frames ! j
        = float_to_int16 (fmul (max (-1) (min 1 (mixBuffer m ! j))) 32767)
      \<and> sint (getMixed m output frames ! j) =
          (if 0 \<le> fmul (max (-1) (min 1 (mixBuffer m ! j))) 32767
           then \<lfloor>fmul (max (-1) (min 1 (mixBuffer m ! j))) 32767\<rfloor>
           else \<lceil>fmul (max (-1) (min 1 (mixBuffer m ! j))) 32767\<rceil>)
      \<and> - 32767 \<le> sint (getMixed m output frames ! j)
      \<and> sint (getMixed m output frames ! j) \<le> 32767)
   \<and> (F \<le> length output \<longrightarrow>
        take F (getMixed (add (add (clear (FloatMixer_create F)) (replicate F 1) F)
                           (replicate F 1) F) output F)
          = replicate F 32767)"
proof (intro conjI impI)
  define p where "p = fmul (max (-1) (min 1 (mixBuffer m ! j))) 32767"
  assume "j < min frames (fm_frameSize m) \<and> j < length output"
  then have v: "getMixed m output frames ! j = float_to_int16 p"
    by (simp only: getMixed_nth if_True p_def)
  have b: "- 32767 \<le> p" "p \<le> 32767"
    unfolding p_def by (rule clamp_times_bounds)+
  have s: "sint (float_to_int16 p) = (if 0 \<le> p then \<lfloor>p\<rfloor> else \<lceil>p\<rceil>)"
    using b by (rule sint_float_to_int16)
  show "getMixed m output frames ! j
        = float_to_int16 (fmul (max (-1) (min 1 (mixBuffer m ! j))) 32767)"
    using v by (simp only: p_def)
  show "sint (getMixed m output frames ! j) =
          (if 0 \<le> fmul (max (-1) (min 1 (mixBuffer m ! j))) 32767
           then \<lfloor>fmul (max (-1) (min 1 (mixBuffer m ! j))) 32767\<rfloor>
           else \<lceil>fmul (max (-1) (min 1 (mixBuffer m ! j))) 32767\<rceil>)"
    using s unfolding v p_def .
  show "- 32767 \<le> sint (getMixed m output frames ! j)"
    unfolding v s using b by (auto simp: le_floor_iff le_ceiling_iff)
  show "sint (getMixed m output frames ! j) \<le> 32767"
    unfolding v s using b by (auto simp: floor_le_iff ceiling_le_iff)
next
  let ?m = "add (add (clear (FloatMixer_create F)) (replicate F 1) F) (replicate F 1) F"
  assume F: "F \<le> length output"
  show "take F (getMixed ?m output F) = replicate F 32767"
  proof (rule nth_equalityI)
    show "length (take F (getMixed ?m output F)) = length (replicate F (32767 :: 16 word))"
      using F by simp
  next
    fix i assume "i < length (take F (getMixed ?m output F))"
    then have i: "i < F" by simp
    then have "mixBuffer ?m ! i = 2"
      by (simp add: add_nth clear_nth fadd_def float_round_exact)
    with i F have "getMixed ?m output F ! i = float_to_int16 32767"
      by (simp add: getMixed_nth fmul_def float_round_exact)
    with i show "take F (getMixed ?m output F) ! i = replicate F 32767 ! i"
      by (simp add: float_to_int16_def)
  qed
qed

text \<open>
  Witness for C6: a mixer of one frame holding \<open>7508197 / 2 ^ 23\<close>, whose product with 32767
  rounds to 29328 in single precision (the exact product truncates to 29327), and a mixer
  of one frame after two adds of 1.0.
\<close>

theorem C6_getMixed_clamps_and_truncates_witness:
  "mixBuffer (add (clear (FloatMixer_create 1)) [7508197 / 8388608] 1) ! 0 = 7508197 / 8388608
   \<and> sint (getMixed (add (clear (FloatMixer_create 1)) [7508197 / 8388608] 1) [0] 1 ! 0) = 29328
   \<and> \<lfloor>7508197 / 8388608 * 32767 :: real\<rfloor> = 29327
   \<and> take 1 (getMixed (add (add (clear (FloatMixer_create 1)) (replicate 1 1) 1)
                          (replicate 1 1) 1) [0] 1) = replicate 1 32767"
proof -
  define m where "m = add (clear (FloatMixer_create 1)) [7508197 / 8388608] 1"
  have b: "mixBuffer m ! 0 = 7508197 / 8388608"
    by (simp add: m_def add_nth clear_nth fadd_def float_round_exact)
  have c: "max (- 1) (min 1 (7508197 / 8388608 :: real)) = 7508197 / 8388608"
    by simp
  have h: "(0::nat) < min 1 (fm_frameSize m) \<and> (0::nat) < length [0 :: 16 word]"
    by (simp add: m_def)
  have h2: "(1::nat) \<le> length [0 :: 16 word]"
    by simp
  from C6_getMixed_clamps_and_truncates [of 0 1 m "[0]" 1] h h2
  have "sint (getMixed m [0] 1 ! 0) =
          (if 0 \<le> fmul (max (-1) (min 1 (mixBuffer m ! 0))) 32767
           then \<lfloor>fmul (max (-1) (min 1 (mixBuffer m ! 0))) 32767\<rfloor>
           else \<lceil>fmul (max (-1) (min 1 (mixBuffer m ! 0))) 32767\<rceil>)"
    and t: "take 1 (getMixed (add (add (clear (FloatMixer_create 1)) (replicate 1 1) 1)
                          (replicate 1 1) 1) [0] 1) = replicate 1 32767"
    by blast+
  then have "sint (getMixed m [0] 1 ! 0) = 29328"
    unfolding b c fmul_rounds_up by simp
  moreover have "\<lfloor>7508197 / 8388608 * 32767 :: real\<rfloor> = 29327"
    by simp
  ultimately show ?thesis
    using b t unfolding m_def by blast
qed

text \<open>
  C6 as stated fails: the accumulated value 0.5 gives \<open>0.5 * 32767 = 16383.5\<close> (exact in
  single precision), which \<^verbatim>\<open>getMixed\<close> converts to 16383, while rounding gives 16384.
\<close>

theorem C6_round_counterexample:
  "sint (getMixed (add (clear (FloatMixer_create 1)) [1 / 2] 1) [0] 1 ! 0) = 16383
   \<and> round ((1 / 2 :: real) * 32767) = 16384
   \<and> fmul (1 / 2) 32767 = 32767 / 2
   \<and> mixBuffer (add (clear (FloatMixer_create 1)) [1 / 2] 1) ! 0 = 1 / 2"
proof -
  have b: "mixBuffer (add (clear (FloatMixer_create 1)) [1 / 2] 1) ! 0 = 1 / 2"
    by (simp add: add_nth clear_nth fadd_def float_round_exact)
  have p: "fmul (1 / 2) 32767 = 32767 / 2"
    by (simp add: fmul_def float_round_exact)
  have c: "max (- 1) (min 1 (1 / 2 :: real)) = 1 / 2"
    by simp
  have "getMixed (add (clear (FloatMixer_create 1)) [1 / 2] 1) [0] 1 ! 0
        = float_to_int16 (32767 / 2)"
    by (simp add: getMixed_nth b c p del: One_nat_def)
  moreover have "sint (float_to_int16 (32767 / 2)) = 16383"
    by (simp add: sint_float_to_int16)
  moreover have "round ((1 / 2 :: real) * 32767) = 16384"
    by (simp add: round_def)
  ultimately show ?thesis using b p by simp
qed

section \<open>JitterBuffer: lemmas and claims\<close>

lemma length_memcpy [simp]: "length (memcpy dst src n) = length dst"
  using length_for_update [of "\<lambda>i d. src ! i"] by (simp add: memcpy_def)

lemma memcpy_nth:
  "j < length dst \<Longrightarrow> memcpy dst src n ! j = (if j < n then src ! j else dst ! j)"
  using for_update_nth [of j dst "\<lambda>i x. src ! i" n] by (simp add: memcpy_def)

lemma copy_packet_full:
  "length (pk_data packet) = frames \<Longrightarrow> length output = frames \<Longrightarrow>
   copy_packet packet output frames = (frames, pk_data packet)"
  by (auto simp add: copy_packet_def Let_def memcpy_nth intro: nth_equalityI)

lemma fill_all: "length p = n \<Longrightarrow> fill p 0 n v = replicate n v"
  by (rule nth_equalityI) (simp_all add: nth_fill)

lemma jb_min_default:
  "tdiv (jb_minDelayMs JbConfig_default * jb_sampleRate JbConfig_default)
        (jb_frameSize JbConfig_default * 1000) = 2"
  by (simp add: JbConfig_default_def tdiv_def)

lemma fed_state:
  "jb_feed (JitterBuffer_create cfg 0) [0, 1, 3] =
     \<lparr> jb_config = cfg,
       packets =
         [(0, \<lparr>pk_data = replicate 480 1, pk_sequence = 0, pk_timestamp = 0, pk_arrivalTime = 0\<rparr>),
          (1, \<lparr>pk_data = replicate 480 2, pk_sequence = 1, pk_timestamp = 0, pk_arrivalTime = 0\<rparr>),
          (3, \<lparr>pk_data = replicate 480 4, pk_sequence = 3, pk_timestamp = 0, pk_arrivalTime = 0\<rparr>)],
       nextPlaySequence = 0, jb_initialized = True,
       currentDelayMs = jb_targetDelayMs cfg, lastGetTime = 0,
       jb_packetsReceived = 3, jb_packetsLost = 0, jb_packetsLate = 0,
       jb_packetsReordered = 0 \<rparr>"
  by (simp add: jb_feed_def put_def JitterBuffer_create_def Let_def kMaxPackets_def)

text \<open>
  C7 (as amended). With the default configuration (two buffered packets needed for
  \<open>minDelayMs = 20\<close>), after the sequences 0, 1, 3 three \<^verbatim>\<open>get\<close> calls play packet 0, packet
  1 and then silence: the third call finds one buffered packet, returns 0 and leaves packet
  3 in the buffer, and \<open>packetsLost\<close> stays 0. With \<open>minDelayMs = 10\<close> (one packet needed)
  the same calls play the packets 0, 1, 3 in that order and \<open>packetsLost = 1\<close>.
\<close>

theorem C7_min_delay_gate:
  "fst (jb_drain (jb_feed (JitterBuffer_create JbConfig_default 0) [0, 1, 3]) 3)
     = [(480, replicate 480 1), (480, replicate 480 2), (0, replicate 480 0)]
   \<and> jb_packetsLost (snd (jb_drain (jb_feed (JitterBuffer_create JbConfig_default 0)
         [0, 1, 3]) 3)) = 0
   \<and> map fst (packets (snd (jb_drain (jb_feed (JitterBuffer_create JbConfig_default 0)
         [0, 1, 3]) 3))) = [3]
   \<and> fst (jb_drain (jb_feed (JitterBuffer_create (JbConfig_default\<lparr>jb_minDelayMs := 10\<rparr>) 0)
         [0, 1, 3]) 3)
     = [(480, replicate 480 1), (480, replicate 480 2), (480, replicate 480 4)]
   \<and> jb_packetsLost (snd (jb_drain
         (jb_feed (JitterBuffer_create (JbConfig_default\<lparr>jb_minDelayMs := 10\<rparr>) 0)
         [0, 1, 3]) 3)) = 1"
  by (simp add: fed_state numeral_3_eq_3 get_def Let_def copy_packet_full fill_all
      JbConfig_default_def tdiv_def)

text \<open>
  C7 as stated fails: with the default configuration the three calls return 480, 480 and 0
  frames, the third output is silence, and \<open>packetsLost = 0\<close>.
\<close>

theorem C7_third_get_silent_counterexample:
  "map fst (fst (jb_drain (jb_feed (JitterBuffer_create JbConfig_default 0) [0, 1, 3]) 3))
     = [480, 480, 0]
   \<and> snd (fst (jb_drain (jb_feed (JitterBuffer_create JbConfig_default 0) [0, 1, 3]) 3) ! 2)
     = replicate 480 0
   \<and> jb_packetsLost (snd (jb_drain (jb_feed (JitterBuffer_create JbConfig_default 0)
         [0, 1, 3]) 3)) = 0"
  by (simp add: fed_state numeral_3_eq_3 get_def Let_def copy_packet_full fill_all
      JbConfig_default_def tdiv_def)

section \<open>CryptState: lemmas and claims\<close>

lemma decrypt_dst:
  "fst (snd (snd (decrypt aes st src dst srcLen))) = dst"
  by (simp add: decrypt_def Let_def split: prod.splits)

lemma encrypt_counter:
  "encryptNonce (snd (snd (encrypt aes st src dst srcLen))) =
     (if initialized st then encryptNonce st + 1 else encryptNonce st)"
  by (simp add: encrypt_def Let_def split: prod.splits)

lemma init_fields:
  "initialized (snd (init aes st k cn sn))"
  "encryptNonce (snd (init aes st k cn sn)) = 0"
  "decryptNonce (snd (init aes st k cn sn)) = 0"
  "\<not> needResync (snd (init aes st k cn sn))"
  by (simp_all add: init_def generateSubkeys_def Let_def)

text \<open>
  C1 (what the code does). \<^verbatim>\<open>decrypt\<close> never writes its destination buffer: whatever the
  cipher, the state, the packet and the length, \<open>dst\<close> holds after the call what it held
  before. So for a fresh sender and a receiver with the same key and mirrored nonces, the
  packet for the plaintext \<open>[1]\<close> opened into a zeroed buffer leaves \<open>[0]\<close>, not the
  plaintext. The counter half of the claim holds: \<^verbatim>\<open>encrypt\<close> on an initialised state
  advances \<open>encryptNonce\<close> by exactly 1 (and a fresh state's first packet has counter 1).
\<close>

theorem C1_decrypt_never_writes_dst:
  "fst (snd (snd (decrypt aes receiver packet dst srcLen))) = dst
   \<and> fst (snd (snd (decrypt aes (snd (init aes CryptState_new k sn cn))
         (fst (snd (encrypt aes (snd (init aes CryptState_new k cn sn)) [1] (replicate 5 0) 1)))
         [0] 5))) = [0]
   \<and> encryptNonce (snd (snd (encrypt aes sender src out len))) =
        (if initialized sender then encryptNonce sender + 1 else encryptNonce sender)
   \<and> encryptNonce (snd (snd (encrypt aes (snd (init aes CryptState_new k cn sn)) src out len)))
        = 1"
  by (simp add: decrypt_dst encrypt_counter init_fields)

lemma ex_packet: "example_packet = [1, 6, 131, 3, 4]"
  by code_simp





lemma ex_accept: "fst (decrypt example_cipher example_receiver [1, 6, 131, 3, 4] [1] 5)"
  by code_simp

lemma ex_reject:
  "decrypt example_cipher example_receiver [1, 6, 131, 3, 4] [0] 5
   = (False, [1, 6, 131, 3, 5], [0], example_receiver\<lparr>needResync := True\<rparr>)"
  by code_simp

lemma example_round_trip_fails:
  "example_packet = [1, 6, 131, 3, 4]
   \<and> \<not> fst (decrypt example_cipher example_receiver example_packet [0] 5)
   \<and> fst (snd (snd (decrypt example_cipher example_receiver example_packet [0] 5))) = [0]"
  by (simp add: ex_packet ex_reject)

text \<open>
  Witness for C1, with the stand-in cipher: the example packet opened into the buffer
  \<open>[0]\<close> leaves \<open>[0]\<close>, and the initialised example sender's counter goes from 0 to 1.
\<close>

theorem C1_decrypt_never_writes_dst_witness:
  "fst (snd (snd (decrypt example_cipher example_receiver example_packet [0] 5))) = [0]
   \<and> initialized example_sender
   \<and> encryptNonce (snd (snd (encrypt example_cipher example_sender [1] (replicate 5 0) 1)))
       = encryptNonce example_sender + 1
   \<and> encryptNonce (snd (snd (encrypt example_cipher example_sender [1] (replicate 5 0) 1))) = 1"
  using C1_decrypt_never_writes_dst
    [where aes = example_cipher and receiver = example_receiver and packet = example_packet
       and dst = "[0]" and srcLen = 5 and sender = example_sender and src = "[1]"
       and out = "replicate 5 0" and len = 1 and k = "replicate 16 0" and cn = "replicate 16 1"
       and sn = "replicate 16 2"]
  by (simp add: example_sender_def init_fields)




section \<open>MumbleClient: lemmas and claims\<close>

lemma setState_state [simp]: "state (setState c s) = s"
  by (simp add: setState_def Let_def)

lemma connect_failed_state:
  assumes "state c = Disconnected" and "\<not> fst (connect env c cfg)"
  shows "state (snd (connect env c cfg)) = Failed"
proof -
  obtain ok2 c2 where i: "initSSL env (setState (c\<lparr>mc_config := cfg\<rparr>) Connecting) cfg = (ok2, c2)"
    by (cases "initSSL env (setState (c\<lparr>mc_config := cfg\<rparr>) Connecting) cfg")
  obtain ok3 c3 where s: "connectSocket env c2 = (ok3, c3)"
    by (cases "connectSocket env c2")
  have eq: "connect env c cfg =
     (if \<not> ok2 then (False, setState c2 Failed)
      else if \<not> ok3 then (False, setState (cleanupSSL c3) Failed)
      else if \<not> env_SSL_connect env then (False, setState (cleanupSSL (c3\<lparr>ssl := True\<rparr>)) Failed)
      else (True, setState ((setState (c3\<lparr>ssl := True\<rparr>) Connected)\<lparr>running := True\<rparr>)
                   Synchronizing))"
    using assms(1) by (simp add: connect_def Let_def i s)
  from assms(2) show ?thesis
    unfolding eq by (simp split: if_splits)
qed

lemma connect_ok_iff:
  "fst (connect env c cfg) \<longleftrightarrow>
     state c = Disconnected \<and> env_SSL_CTX_new env
     \<and> (certificatePath cfg = [] \<or> loadCertificate env)
     \<and> env_getaddrinfo env \<and> 0 \<le> env_socket env \<and> env_connect env \<and> env_SSL_connect env"
proof (cases "state c = Disconnected")
  case False
  then show ?thesis by (simp add: connect_def)
next
  case True
  obtain ok2 c2 where i: "initSSL env (setState (c\<lparr>mc_config := cfg\<rparr>) Connecting) cfg = (ok2, c2)"
    by (cases "initSSL env (setState (c\<lparr>mc_config := cfg\<rparr>) Connecting) cfg")
  obtain ok3 c3 where s: "connectSocket env c2 = (ok3, c3)"
    by (cases "connectSocket env c2")
  have ok2: "ok2 \<longleftrightarrow> env_SSL_CTX_new env \<and> (certificatePath cfg = [] \<or> loadCertificate env)"
    using i by (auto simp add: initSSL_def Let_def split: if_splits)
  have ok3: "ok3 \<longleftrightarrow> env_getaddrinfo env \<and> 0 \<le> env_socket env \<and> env_connect env"
    using s by (auto simp add: connectSocket_def Let_def split: if_splits)
  have "fst (connect env c cfg) \<longleftrightarrow> ok2 \<and> ok3 \<and> env_SSL_connect env"
    using True by (simp add: connect_def Let_def i s)
  then show ?thesis using True ok2 ok3 by blast
qed

text \<open>
  C8 (as amended). A \<^verbatim>\<open>connect\<close> called in state \<open>Disconnected\<close> that fails while creating the
  TLS context, loading the client certificate or performing the TLS handshake returns false
  and leaves the state \<open>Failed\<close>; a further \<^verbatim>\<open>connect\<close> is then refused, whatever the
  environment. More generally every failed \<^verbatim>\<open>connect\<close> from \<open>Disconnected\<close> ends in
  \<open>Failed\<close>.
\<close>

theorem C8_failed_connect_ends_in_Failed:
  "(state c = Disconnected
      \<and> (\<not> env_SSL_CTX_new env \<or> (certificatePath cfg \<noteq> [] \<and> \<not> loadCertificate env)
          \<or> \<not> env_SSL_connect env) \<longrightarrow>
      \<not> fst (connect env c cfg) \<and> state (snd (connect env c cfg)) = Failed
      \<and> \<not> fst (connect env' (snd (connect env c cfg)) cfg'))
   \<and> (state c = Disconnected \<and> \<not> fst (connect env c cfg) \<longrightarrow>
        state (snd (connect env c cfg)) = Failed)"
proof (intro conjI impI)
  assume a: "state c = Disconnected
      \<and> (\<not> env_SSL_CTX_new env \<or> (certificatePath cfg \<noteq> [] \<and> \<not> loadCertificate env)
          \<or> \<not> env_SSL_connect env)"
  then show f: "\<not> fst (connect env c cfg)"
    unfolding connect_ok_iff by blast
  with a show st: "state (snd (connect env c cfg)) = Failed"
    by (simp add: connect_failed_state)
  then show "\<not> fst (connect env' (snd (connect env c cfg)) cfg')"
    unfolding connect_ok_iff by simp
next
  assume "state c = Disconnected \<and> \<not> fst (connect env c cfg)"
  then show "state (snd (connect env c cfg)) = Failed"
    by (simp add: connect_failed_state)
qed

lemma example_loadCertificate: "\<not> loadCertificate env_certificate_fails"
  by (simp add: loadCertificate_def env_certificate_fails_def env_all_ok_def)

text \<open>
  Witness for C8: a configuration with a certificate path, in an environment where neither
  the PEM file nor the PKCS#12 file can be loaded.
\<close>

theorem C8_failed_connect_ends_in_Failed_witness:
  "state MumbleClient_new = Disconnected
   \<and> certificatePath example_config \<noteq> [] \<and> \<not> loadCertificate env_certificate_fails
   \<and> \<not> fst (connect env_certificate_fails MumbleClient_new example_config)
   \<and> state (snd (connect env_certificate_fails MumbleClient_new example_config)) = Failed
   \<and> \<not> fst (connect env_all_ok
              (snd (connect env_certificate_fails MumbleClient_new example_config))
              example_config)"
  using C8_failed_connect_ends_in_Failed
    [of MumbleClient_new env_certificate_fails example_config env_all_ok example_config]
  by (simp add: example_loadCertificate MumbleClient_new_def example_config_def)

text \<open>
  C8 as stated fails: when \<^verbatim>\<open>SSL_connect\<close> fails, or the certificate cannot be loaded,
  \<^verbatim>\<open>connect\<close> returns false and the state is \<open>Failed\<close>, not \<open>Disconnected\<close>; the state
  callback has seen \<open>Connecting\<close> and \<open>Failed\<close>.
\<close>

theorem C8_handshake_failure_counterexample:
  "state MumbleClient_new = Disconnected
   \<and> \<not> fst (connect env_handshake_fails MumbleClient_new example_config)
   \<and> state (snd (connect env_handshake_fails MumbleClient_new example_config)) = Failed
   \<and> state (snd (connect env_handshake_fails MumbleClient_new example_config)) \<noteq> Disconnected
   \<and> stateEvents (snd (connect env_handshake_fails MumbleClient_new example_config))
       = [Connecting, Failed]
   \<and> \<not> fst (connect env_certificate_fails MumbleClient_new example_config)
   \<and> state (snd (connect env_certificate_fails MumbleClient_new example_config)) = Failed"
  by (simp add: connect_def initSSL_def connectSocket_def cleanupSSL_def setState_def
      loadCertificate_def Let_def MumbleClient_new_def example_config_def
      env_handshake_fails_def env_certificate_fails_def env_all_ok_def)

section \<open>UdpPing: lemmas and claims\<close>

lemma invoke_callback_fields [simp]:
  "udpAvailable (invoke_callback st b l) = udpAvailable st"
  "hasCallback (invoke_callback st b l) = hasCallback st"
  by (simp_all add: invoke_callback_def)



lemma body_hasCallback:
  "pingLoop_body e r st = (r', st') \<Longrightarrow> hasCallback st' = hasCallback st"
  by (auto simp add: pingLoop_body_def sendPing_def receiveResponse_def Let_def
      split: option.splits)

lemma exit_udp [simp]: "udpAvailable (pingLoop_exit r st) = udpAvailable st"
  by (simp add: pingLoop_exit_def)



lemma trace_hd [simp]: "hd (pingLoop_trace r es st) = st"
  by (cases es) (auto split: prod.splits)



lemma exit_set_udp:
  "s \<in> set [st, pingLoop_exit r st] \<Longrightarrow> udpAvailable s = udpAvailable st"
  by auto








end
